theory Spec2Isabelle
  imports Complex_Main "HOL-Library.AList"
begin

section \<open>Python values used by the calculator\<close>

text \<open>
  The exceptions that the modelled code can meet. A function of the source that can raise
  returns \<open>py_error + 'a\<close>, with \<open>Inl\<close> for the exception.
\<close>

datatype py_error = KeyError | IndexError | ValueError | ZeroDivisionError | OverflowError

text \<open>A call that raises ends the calling function with the same exception.\<close>

definition bind_err :: "py_error + 'a \<Rightarrow> ('a \<Rightarrow> py_error + 'b) \<Rightarrow> py_error + 'b" where
  "bind_err x f = (case x of Inl e \<Rightarrow> Inl e | Inr v \<Rightarrow> f v)"

text \<open>
  A Python \<open>float\<close> is a binary64 number: a finite value, which is a real number with a
  53-bit significand and an exponent from -1074 to 971, plus or minus infinity, or NaN
  (pandas stores an empty spreadsheet cell as the float NaN). The two zeros, which are
  equal in Python, are one value here. Every arithmetic operation returns the exact
  result rounded to the nearest finite value, ties to the even significand, and an
  infinity when the rounded result lies beyond the largest finite value. The type has
  room for reals that binary64 does not have; they stand for no Python value.
\<close>

datatype pyfloat = Fl real | PInf | NInf | NaN

instantiation pyfloat :: zero
begin

definition zero_pyfloat :: pyfloat where
  "zero_pyfloat = Fl 0"

instance ..

end

text \<open>The number of binary digits of a positive integer.\<close>

function bit_length :: "int \<Rightarrow> int" where
  "bit_length n = (if n \<le> 0 then 0 else 1 + bit_length (n div 2))"
  by pat_completeness auto
termination
  by (relation "measure nat") auto

declare bit_length.simps [simp del]

definition pow2 :: "int \<Rightarrow> real" where
  "pow2 k = (if 0 \<le> k then 2 ^ nat k else 1 / 2 ^ nat (- k))"

text \<open>The binary exponent \<open>e\<close> of a positive real \<open>a\<close>: \<open>2 ^ e \<le> a < 2 ^ (e + 1)\<close>.\<close>

definition exponent2 :: "real \<Rightarrow> int" where
  "exponent2 a =
     (if 1 \<le> a then bit_length \<lfloor>a\<rfloor> - 1 else - bit_length (\<lceil>1 / a\<rceil> - 1))"

text \<open>The nearest integer, the even one of the two at a tie.\<close>

definition round_half_even :: "real \<Rightarrow> int" where
  "round_half_even x =
     (let f = \<lfloor>x\<rfloor>; d = x - of_int f
      in if d < 1 / 2 then f else if 1 / 2 < d then f + 1 else if even f then f else f + 1)"

text \<open>
  Rounding a positive real to binary64: the spacing of the values near \<open>a\<close> is
  \<open>2 ^ (e - 52)\<close> for the exponent \<open>e\<close> of \<open>a\<close>, and \<open>2 ^ -1074\<close> below \<open>2 ^ -1022\<close>; a
  result of \<open>2 ^ 1024\<close> or more is infinite.
\<close>

definition round64_pos :: "real \<Rightarrow> pyfloat" where
  "round64_pos a =
     (let e = max (exponent2 a) (- 1022);
          q = pow2 (e - 52);
          r = of_int (round_half_even (a / q)) * q
      in if pow2 1024 \<le> r then PInf else Fl r)"

fun fneg :: "pyfloat \<Rightarrow> pyfloat" where
  "fneg (Fl x) = Fl (- x)"
| "fneg PInf = NInf"
| "fneg NInf = PInf"
| "fneg NaN = NaN"

definition round64 :: "real \<Rightarrow> pyfloat" where
  "round64 x =
     (if x = 0 then Fl 0 else if 0 < x then round64_pos x else fneg (round64_pos (- x)))"

text \<open>
  Addition, multiplication and division of floats. An infinity absorbs a finite value,
  \<open>inf - inf\<close>, \<open>inf * 0\<close> and \<open>inf / inf\<close> are NaN, NaN gives NaN, and a division by zero
  raises \<open>ZeroDivisionError\<close> whatever the dividend. Truth testing (\<open>x or 0\<close>) treats
  exactly the value zero as false.
\<close>

fun fadd :: "pyfloat \<Rightarrow> pyfloat \<Rightarrow> pyfloat" where
  "fadd (Fl a) (Fl b) = round64 (a + b)"
| "fadd NaN _ = NaN"
| "fadd _ NaN = NaN"
| "fadd PInf NInf = NaN"
| "fadd NInf PInf = NaN"
| "fadd PInf _ = PInf"
| "fadd _ PInf = PInf"
| "fadd NInf _ = NInf"
| "fadd _ NInf = NInf"

fun fmul :: "pyfloat \<Rightarrow> pyfloat \<Rightarrow> pyfloat" where
  "fmul (Fl a) (Fl b) = round64 (a * b)"
| "fmul NaN _ = NaN"
| "fmul _ NaN = NaN"
| "fmul PInf (Fl b) = (if b = 0 then NaN else if 0 < b then PInf else NInf)"
| "fmul NInf (Fl b) = (if b = 0 then NaN else if 0 < b then NInf else PInf)"
| "fmul (Fl a) PInf = (if a = 0 then NaN else if 0 < a then PInf else NInf)"
| "fmul (Fl a) NInf = (if a = 0 then NaN else if 0 < a then NInf else PInf)"
| "fmul PInf PInf = PInf"
| "fmul PInf NInf = NInf"
| "fmul NInf PInf = NInf"
| "fmul NInf NInf = PInf"

fun fdiv :: "pyfloat \<Rightarrow> pyfloat \<Rightarrow> py_error + pyfloat" where
  "fdiv (Fl a) (Fl b) = (if b = 0 then Inl ZeroDivisionError else Inr (round64 (a / b)))"
| "fdiv PInf (Fl b) =
     (if b = 0 then Inl ZeroDivisionError else Inr (if 0 < b then PInf else NInf))"
| "fdiv NInf (Fl b) =
     (if b = 0 then Inl ZeroDivisionError else Inr (if 0 < b then NInf else PInf))"
| "fdiv NaN (Fl b) = (if b = 0 then Inl ZeroDivisionError else Inr NaN)"
| "fdiv (Fl a) PInf = Inr (Fl 0)"
| "fdiv (Fl a) NInf = Inr (Fl 0)"
| "fdiv _ _ = Inr NaN"

text \<open>
  \<open>float(n)\<close> for an integer rounds to the nearest float and raises \<open>OverflowError\<close>
  when that is not finite. The product \<open>n * x\<close> of an integer and a float converts the
  integer first.
\<close>

definition float_of_int :: "int \<Rightarrow> py_error + pyfloat" where
  "float_of_int n =
     (case round64 (of_int n) of Fl x \<Rightarrow> Inr (Fl x) | _ \<Rightarrow> Inl OverflowError)"

definition int_times_float :: "int \<Rightarrow> pyfloat \<Rightarrow> py_error + pyfloat" where
  "int_times_float n x = bind_err (float_of_int n) (\<lambda>y. Inr (fmul y x))"

text \<open>
  \<open>int(x)\<close> for a float truncates towards zero; it raises \<open>OverflowError\<close> on an infinity
  and \<open>ValueError\<close> on NaN.
\<close>

fun int_of_float :: "pyfloat \<Rightarrow> py_error + int" where
  "int_of_float (Fl r) = Inr (if 0 \<le> r then \<lfloor>r\<rfloor> else \<lceil>r\<rceil>)"
| "int_of_float PInf = Inl OverflowError"
| "int_of_float NInf = Inl OverflowError"
| "int_of_float NaN = Inl ValueError"

text \<open>
  A cell of a \<open>pandas\<close> row, or a default handed to \<open>row.get\<close>: \<open>None\<close>, an integer,
  a float or a string. A string is a list of 8-bit characters, so digits outside ASCII
  are not covered.
\<close>

datatype cell = CNone | CInt int | CFloat pyfloat | CStr string

type_synonym row = "string \<rightharpoonup> cell"

text \<open>\<open>row.get(key, default)\<close>\<close>

definition row_get :: "row \<Rightarrow> string \<Rightarrow> cell \<Rightarrow> cell" where
  "row_get r key dflt = (case r key of None \<Rightarrow> dflt | Some v \<Rightarrow> v)"

text \<open>\<open>d.get(key, default)\<close> for an optional entry of a configuration dictionary.\<close>

definition get_or :: "'a option \<Rightarrow> 'a \<Rightarrow> 'a" where
  "get_or entry dflt = (case entry of None \<Rightarrow> dflt | Some v \<Rightarrow> v)"

section \<open>Text of numbers\<close>

definition is_digit :: "char \<Rightarrow> bool" where
  "is_digit c = (c \<in> set ''0123456789'')"

definition is_sign :: "char \<Rightarrow> bool" where
  "is_sign c = (c = CHR ''-'' \<or> c = CHR ''+'')"

definition is_sep :: "char \<Rightarrow> bool" where
  "is_sep c = (c = CHR ''.'' \<or> c = CHR '','')"

text \<open>
  The regular expression \<^verbatim>\<open>[-+]?\d+(?:[\.,]\d+)?\<close> tried at the start of a text. The sign
  is taken when present; if no digit follows it the attempt fails, since the sign itself
  is no digit. The digits are taken greedily, then a separator with at least one digit
  after it.
\<close>

definition match_number :: "string \<Rightarrow> string option" where
  "match_number s =
     (let sg = (case s of [] \<Rightarrow> [] | c # _ \<Rightarrow> if is_sign c then [c] else []);
          r = drop (length sg) s;
          ds = takeWhile is_digit r;
          rest = dropWhile is_digit r
      in if ds = [] then None
         else Some (sg @ ds @
           (case rest of
              [] \<Rightarrow> []
            | c # r2 \<Rightarrow>
                if is_sep c \<and> takeWhile is_digit r2 \<noteq> [] then c # takeWhile is_digit r2
                else [])))"

text \<open>\<open>re.search\<close>: the match at the leftmost position that has one.\<close>

fun re_search :: "string \<Rightarrow> string option" where
  "re_search [] = None"
| "re_search (c # cs) =
     (case match_number (c # cs) of Some t \<Rightarrow> Some t | None \<Rightarrow> re_search cs)"

text \<open>\<open>str(n)\<close> for an integer: its decimal digits, with a minus sign when negative.\<close>

fun digits_of_nat :: "nat \<Rightarrow> string" where
  "digits_of_nat n =
     (if n < 10 then [''0123456789'' ! n]
      else digits_of_nat (n div 10) @ [''0123456789'' ! (n mod 10)])"

definition str_int :: "int \<Rightarrow> string" where
  "str_int i = (if i < 0 then CHR ''-'' # digits_of_nat (nat (- i)) else digits_of_nat (nat i))"

text \<open>
  The text handed to \<open>float\<close>: a string, or the \<open>str\<close> of a float \<open>x\<close>, which contains no
  comma and which \<open>float\<close> reads back as \<open>x\<close> (\<open>nan\<close> and \<open>inf\<close> included).
\<close>

datatype numtext = Plain string | FloatRepr pyfloat

text \<open>\<open>num.replace(",", ".")\<close>\<close>

fun replace_comma :: "numtext \<Rightarrow> numtext" where
  "replace_comma (Plain s) = Plain (map (\<lambda>c. if c = CHR '','' then CHR ''.'' else c) s)"
| "replace_comma (FloatRepr x) = FloatRepr x"

definition digit_val :: "char \<Rightarrow> nat" where
  "digit_val c = of_char c - 48"

definition nat_of_digits :: "string \<Rightarrow> nat" where
  "nat_of_digits ds = foldl (\<lambda>acc c. 10 * acc + digit_val c) 0 ds"

text \<open>
  The value of an unsigned decimal text: digits, optionally a point and more digits.
\<close>

definition unsigned_decimal :: "string \<Rightarrow> real option" where
  "unsigned_decimal s =
     (let ip = takeWhile is_digit s; rest = dropWhile is_digit s
      in if ip = [] then None
         else case rest of
           [] \<Rightarrow> Some (of_nat (nat_of_digits ip))
         | c # fp \<Rightarrow>
             if c = CHR ''.'' \<and> fp \<noteq> [] \<and> list_all is_digit fp
             then Some (of_nat (nat_of_digits ip) + of_nat (nat_of_digits fp) / 10 ^ length fp)
             else None)"

text \<open>
  \<open>float(text)\<close>: the decimal value rounded to the nearest float, so a text with too
  many digits reads as an infinity. Only the texts that the code can hand over are given
  a value: an optional sign, digits, and optionally a point followed by digits. Every
  other text raises \<open>ValueError\<close> here, as \<open>float("abc")\<close> does; the further forms that
  Python's \<open>float\<close> reads (exponents, blanks, \<open>inf\<close>) never reach it.
\<close>

fun float_of_text :: "numtext \<Rightarrow> py_error + pyfloat" where
  "float_of_text (FloatRepr x) = Inr x"
| "float_of_text (Plain s) =
     (case s of
        [] \<Rightarrow> Inl ValueError
      | c # cs \<Rightarrow>
          if c = CHR ''-'' then
            (case unsigned_decimal cs of
               None \<Rightarrow> Inl ValueError
             | Some r \<Rightarrow> Inr (round64 (- r)))
          else if c = CHR ''+'' then
            (case unsigned_decimal cs of
               None \<Rightarrow> Inl ValueError
             | Some r \<Rightarrow> Inr (round64 r))
          else
            (case unsigned_decimal s of
               None \<Rightarrow> Inl ValueError
             | Some r \<Rightarrow> Inr (round64 r)))"

section \<open>calculator/logic.py: numeric coercion\<close>

text \<open>
  The source's names start with an underscore, which an Isabelle name cannot; the
  underscore is dropped.
\<close>

fun extract_number_token :: "cell \<Rightarrow> numtext option" where
  "extract_number_token CNone = None"
| "extract_number_token (CInt i) = Some (Plain (str_int i))"
| "extract_number_token (CFloat x) = Some (FloatRepr x)"
| "extract_number_token (CStr text) = map_option Plain (re_search text)"

text \<open>The body of the \<open>try\<close> block of \<open>_to_float\<close>, and the function with its handler.\<close>

definition to_float_try :: "cell \<Rightarrow> pyfloat \<Rightarrow> py_error + pyfloat" where
  "to_float_try v dflt =
     (case extract_number_token v of
        None \<Rightarrow> Inr dflt
      | Some num \<Rightarrow> float_of_text (replace_comma num))"

definition to_float :: "cell \<Rightarrow> pyfloat \<Rightarrow> pyfloat" where
  "to_float v dflt = (case to_float_try v dflt of Inl _ \<Rightarrow> dflt | Inr x \<Rightarrow> x)"

definition to_int_try :: "cell \<Rightarrow> int \<Rightarrow> py_error + int" where
  "to_int_try v dflt =
     (case extract_number_token v of
        None \<Rightarrow> Inr dflt
      | Some num \<Rightarrow> bind_err (float_of_text (replace_comma num)) int_of_float)"

definition to_int :: "cell \<Rightarrow> int \<Rightarrow> int" where
  "to_int v dflt = (case to_int_try v dflt of Inl _ \<Rightarrow> dflt | Inr n \<Rightarrow> n)"

text \<open>The callbacks as the callers use them, with the default of the signature.\<close>

definition to_float0 :: "cell \<Rightarrow> pyfloat" where
  "to_float0 v = to_float v (Fl 0)"

definition to_int0 :: "cell \<Rightarrow> int" where
  "to_int0 v = to_int v 0"

section \<open>calculator/tiered\_columns.py: tier selection\<close>

text \<open>
  A tier table is a dictionary from breakpoint to column name, kept as an association
  list; \<open>map_of\<close> looks a key up.
\<close>

type_synonym tiers = "(int \<times> string) list"

definition dict_keys :: "('k \<times> 'v) list \<Rightarrow> 'k list" where
  "dict_keys d = remdups (map fst d)"

text \<open>
  The loop over the sorted breakpoints: the selection moves up while the breakpoint is
  at most the requested quantity and the loop breaks at the first larger one.
\<close>

fun select_tier :: "int list \<Rightarrow> int \<Rightarrow> int option \<Rightarrow> int option" where
  "select_tier [] requested selected_tier = selected_tier"
| "select_tier (q # qs) requested selected_tier =
     (if q \<le> requested then select_tier qs requested (Some q) else selected_tier)"

definition pick_tier_value ::
  "row \<Rightarrow> tiers \<Rightarrow> int \<Rightarrow> (cell \<Rightarrow> 'a::zero) \<Rightarrow> py_error + 'a" where
  "pick_tier_value r tiers requested conv =
     (if tiers = [] then Inr 0
      else
        let sorted_qtys = sort (dict_keys tiers) in
        bind_err
          (case select_tier sorted_qtys requested None of
             Some t \<Rightarrow> Inr t
           | None \<Rightarrow> (case sorted_qtys of [] \<Rightarrow> Inl IndexError | q # _ \<Rightarrow> Inr q))
          (\<lambda>selected_tier.
             case map_of tiers selected_tier of
               None \<Rightarrow> Inl KeyError
             | Some col \<Rightarrow> Inr (conv (row_get r col (CInt 0)))))"

section \<open>calculator/logic.py: the offer\<close>

definition ceil_to_lot :: "int \<Rightarrow> int \<Rightarrow> int" where
  "ceil_to_lot quantity lot_size =
     (if lot_size \<le> 1 then quantity
      else ((quantity + lot_size - 1) div lot_size) * lot_size)"

text \<open>
  The pricing configuration (\<open>Dict[str, float]\<close>): each key may be absent. \<open>x or 0\<close> gives
  0 when the entry is absent or zero.
\<close>

record pricing_cfg =
  handling_flat :: "pyfloat option"
  handling_percent :: "pyfloat option"

definition or_zero :: "pyfloat option \<Rightarrow> pyfloat" where
  "or_zero entry = (let x = get_or entry (Fl 0) in if x = Fl 0 then Fl 0 else x)"

definition apply_pricing_overheads :: "pyfloat \<Rightarrow> pricing_cfg \<Rightarrow> py_error + pyfloat" where
  "apply_pricing_overheads amount cfg =
     (let flat = or_zero (handling_flat cfg);
          percent = or_zero (handling_percent cfg);
          total = fadd amount flat
      in bind_err (fdiv percent (Fl 100)) (\<lambda>p. Inr (fmul total (fadd (Fl 1) p))))"

text \<open>
  The column mapping, a dictionary with fixed keys, each of which may be absent: the four
  tier tables built by the loader, and the names of the MOQ, lot size and fixed transport
  time columns. The currency entry and the currency of the offer are text handling only
  and are left out.
\<close>

record mapping =
  tiers_production :: "tiers option"
  tiers_air_transport :: "tiers option"
  tiers_sea_transport :: "tiers option"
  tiers_production_time :: "tiers option"
  moq :: "string option"
  lot_size :: "string option"
  air_transport_time_column :: "string option"
  sea_transport_time_column :: "string option"

text \<open>The dictionary \<open>f\<close> that \<open>_prepare_fields\<close> returns; its keys carry the prefix \<open>f_\<close>.\<close>

record fields =
  f_production_unit_cost :: pyfloat
  f_air_transport_unit_cost :: pyfloat
  f_sea_transport_unit_cost :: pyfloat
  f_unit_price_air :: pyfloat
  f_unit_price_sea :: pyfloat
  f_moq :: int
  f_lot_size :: int
  f_lead_time_air_days :: int
  f_lead_time_sea_days :: int

text \<open>\<open>x or 1\<close> on an integer.\<close>

definition or_one :: "int \<Rightarrow> int" where
  "or_one x = (if x = 0 then 1 else x)"

text \<open>
  The fixed transport time of one mode: read from the configured column when the name is
  not empty and the row has that column, 0 otherwise.
\<close>

definition transport_time_weeks :: "row \<Rightarrow> string \<Rightarrow> int" where
  "transport_time_weeks r col =
     (if col \<noteq> [] \<and> r col \<noteq> None then to_int0 (row_get r col (CInt 0)) else 0)"

text \<open>
  The production time in weeks: tiered, and 0 when no production time table is configured.
\<close>

definition production_weeks :: "row \<Rightarrow> mapping \<Rightarrow> int \<Rightarrow> py_error + int" where
  "production_weeks r m requested =
     (let prod_time_tiers = get_or (tiers_production_time m) [] in
      if prod_time_tiers \<noteq> [] then pick_tier_value r prod_time_tiers requested to_int0
      else Inr 0)"

definition prepare_fields :: "row \<Rightarrow> mapping \<Rightarrow> int \<Rightarrow> py_error + fields" where
  "prepare_fields r m requested =
     (let prod_tiers = get_or (tiers_production m) [];
          air_tr_tiers = get_or (tiers_air_transport m) [];
          sea_tr_tiers = get_or (tiers_sea_transport m) [];
          air_tr_time_weeks = transport_time_weeks r (get_or (air_transport_time_column m) []);
          sea_tr_time_weeks = transport_time_weeks r (get_or (sea_transport_time_column m) [])
      in
      bind_err (pick_tier_value r prod_tiers requested to_float0) (\<lambda>prod_cost.
      bind_err (pick_tier_value r air_tr_tiers requested to_float0) (\<lambda>air_tr_cost.
      bind_err (pick_tier_value r sea_tr_tiers requested to_float0) (\<lambda>sea_tr_cost.
      bind_err (production_weeks r m requested) (\<lambda>prod_time_weeks.
      Inr \<lparr>
        f_production_unit_cost = prod_cost,
        f_air_transport_unit_cost = air_tr_cost,
        f_sea_transport_unit_cost = sea_tr_cost,
        f_unit_price_air = fadd prod_cost air_tr_cost,
        f_unit_price_sea = fadd prod_cost sea_tr_cost,
        f_moq = max 1 (or_one (to_int0 (row_get r (get_or (moq m) []) (CInt 1)))),
        f_lot_size = max 1 (or_one (to_int0 (row_get r (get_or (lot_size m) []) (CInt 1)))),
        f_lead_time_air_days = (prod_time_weeks + air_tr_time_weeks) * 7,
        f_lead_time_sea_days = (prod_time_weeks + sea_tr_time_weeks) * 7 \<rparr>)))))"

text \<open>
  A date is the number of its day, counted as \<open>date.toordinal\<close> does: day 1 is the first
  of January of the year 1 and day 3652059 the last of December of the year 9999.
  \<open>timedelta(days=n)\<close> raises \<open>OverflowError\<close> when \<open>n\<close> has a magnitude above 999999999,
  and subtracting it from a date raises \<open>OverflowError\<close> when the result is no date.
\<close>

type_synonym date = int

definition timedelta :: "int \<Rightarrow> py_error + int" where
  "timedelta days =
     (if - 999999999 \<le> days \<and> days \<le> 999999999 then Inr days else Inl OverflowError)"

definition date_sub :: "date \<Rightarrow> int \<Rightarrow> py_error + date" where
  "date_sub d days =
     (if 1 \<le> d - days \<and> d - days \<le> 3652059 then Inr (d - days) else Inl OverflowError)"

record mode_offer =
  unit_price :: pyfloat
  production_unit_cost :: pyfloat
  transport_unit_cost :: pyfloat
  production_total_pre_overhead :: pyfloat
  transport_total_pre_overhead :: pyfloat
  lead_time_days :: int
  total_cost :: pyfloat
  order_by :: date

record offer =
  requested_qty :: int
  qty_ordered :: int
  air :: mode_offer
  sea :: mode_offer

text \<open>The configuration: its \<open>pricing\<close> entry may be absent, which stands for \<open>{}\<close>.\<close>

record config =
  pricing :: "pricing_cfg option"

definition pricing_of :: "config \<Rightarrow> pricing_cfg" where
  "pricing_of cfg = get_or (pricing cfg) \<lparr>handling_flat = None, handling_percent = None\<rparr>"

definition compute_offer ::
  "row \<Rightarrow> int \<Rightarrow> date \<Rightarrow> mapping \<Rightarrow> config \<Rightarrow> py_error + offer" where
  "compute_offer r requested target_date m cfg =
     bind_err (prepare_fields r m requested) (\<lambda>f.
     let pcfg = pricing_of cfg;
         qty_after_moq = max requested (f_moq f);
         qty = ceil_to_lot qty_after_moq (f_lot_size f)
     in
     bind_err (bind_err (int_times_float qty (f_unit_price_air f))
                 (\<lambda>amount. apply_pricing_overheads amount pcfg))
       (\<lambda>air_cost.
     bind_err (bind_err (int_times_float qty (f_unit_price_sea f))
                 (\<lambda>amount. apply_pricing_overheads amount pcfg))
       (\<lambda>sea_cost.
     bind_err (int_times_float qty (f_production_unit_cost f)) (\<lambda>prod_total.
     bind_err (int_times_float qty (f_air_transport_unit_cost f)) (\<lambda>air_tr_total.
     bind_err (int_times_float qty (f_sea_transport_unit_cost f)) (\<lambda>sea_tr_total.
     bind_err (bind_err (timedelta (f_lead_time_air_days f)) (date_sub target_date))
       (\<lambda>air_order_by.
     bind_err (bind_err (timedelta (f_lead_time_sea_days f)) (date_sub target_date))
       (\<lambda>sea_order_by.
     Inr \<lparr>
        requested_qty = requested,
        qty_ordered = qty,
        air = \<lparr>
          unit_price = f_unit_price_air f,
          production_unit_cost = f_production_unit_cost f,
          transport_unit_cost = f_air_transport_unit_cost f,
          production_total_pre_overhead = prod_total,
          transport_total_pre_overhead = air_tr_total,
          lead_time_days = f_lead_time_air_days f,
          total_cost = air_cost,
          order_by = air_order_by \<rparr>,
        sea = \<lparr>
          unit_price = f_unit_price_sea f,
          production_unit_cost = f_production_unit_cost f,
          transport_unit_cost = f_sea_transport_unit_cost f,
          production_total_pre_overhead = prod_total,
          transport_total_pre_overhead = sea_tr_total,
          lead_time_days = f_lead_time_sea_days f,
          total_cost = sea_cost,
          order_by = sea_order_by \<rparr> \<rparr>))))))))"

section \<open>streamlit\_app.py: dependencies\<close>

text \<open>
  The dependency map (\<open>Dict[str, List[str]]\<close>) is an association list in the order of the
  dictionary. \<open>deps_map.get(c, []) or []\<close> is the list of the direct prerequisites of \<open>c\<close>,
  empty when \<open>c\<close> has no entry.
\<close>

type_synonym deps_map = "(string \<times> string list) list"

definition deps_of :: "deps_map \<Rightarrow> string \<Rightarrow> string list" where
  "deps_of dm c = (case map_of dm c of None \<Rightarrow> [] | Some ds \<Rightarrow> ds)"

text \<open>
  \<open>get_all_deps\<close> is recursive and guarded by the shared, mutated set \<open>visited\<close>. The
  first argument bounds the depth of the recursion: \<open>None\<close> means the bound was reached.
  The set is returned with the result, as the callee's additions are seen by the caller.
  Python's own recursion limit is outside the model.
\<close>

fun get_all_deps ::
  "nat \<Rightarrow> deps_map \<Rightarrow> string \<Rightarrow> string set \<Rightarrow> (string list \<times> string set) option"
and get_all_deps_loop ::
  "nat \<Rightarrow> deps_map \<Rightarrow> string list \<Rightarrow> string list \<times> string set \<Rightarrow>
   (string list \<times> string set) option"
where
  "get_all_deps 0 dm cmp visited = None"
| "get_all_deps (Suc n) dm cmp visited =
     (if cmp \<in> visited then Some ([], visited)
      else get_all_deps_loop n dm (deps_of dm cmp) ([], insert cmp visited))"
| "get_all_deps_loop n dm [] st = Some st"
| "get_all_deps_loop n dm (dep # deps) st =
     (case get_all_deps n dm dep (snd st) of
        None \<Rightarrow> None
      | Some sub \<Rightarrow> get_all_deps_loop n dm deps (fst st @ [dep] @ fst sub, snd sub))"

text \<open>
  \<open>_resolve_dependencies\<close>: each component gets the list computed from a fresh empty set;
  the result is the dictionary \<open>all_deps\<close>, in its order of insertion.
\<close>

fun resolve_loop ::
  "nat \<Rightarrow> deps_map \<Rightarrow> string list \<Rightarrow> (string \<times> string list) list \<Rightarrow>
   (string \<times> string list) list option" where
  "resolve_loop n dm [] all_deps = Some all_deps"
| "resolve_loop n dm (cmp # cmps) all_deps =
     (case get_all_deps n dm cmp {} of
        None \<Rightarrow> None
      | Some r \<Rightarrow> resolve_loop n dm cmps (AList.update cmp (fst r) all_deps))"

definition resolve_dependencies ::
  "nat \<Rightarrow> string list \<Rightarrow> deps_map \<Rightarrow> (string \<times> string list) list option" where
  "resolve_dependencies n components dm = resolve_loop n dm components []"

section \<open>streamlit\_app.py: backward scheduling\<close>












section \<open>streamlit\_app.py: forward scheduling\<close>




text \<open>
  The state of the relaxation loop. \<open>finishes\<close> is an association list in insertion order,
  as its values are enumerated; \<open>remaining\<close> is the set in its order of iteration.
\<close>

record fwd_state =
  starts :: "string \<rightharpoonup> date"
  finishes :: "(string \<times> date) list"
  remaining :: "string list"
  progress :: bool

definition deps_limited :: "string list \<Rightarrow> deps_map \<Rightarrow> string \<Rightarrow> string list" where
  "deps_limited components dm cmp =
     (if cmp \<in> set components then filter (\<lambda>d. d \<in> set components) (deps_of dm cmp)
      else [])"









section \<open>Notions used in the statements\<close>

text \<open>The names that have at least one dependency in the map.\<close>

definition dep_keys :: "deps_map \<Rightarrow> string set" where
  "dep_keys dm = {k. deps_of dm k \<noteq> []}"

text \<open>The names that the map lists as a dependency of some name.\<close>

definition listed :: "deps_map \<Rightarrow> string set" where
  "listed dm = (\<Union>c. set (deps_of dm c))"






text \<open>A component is ready when all its selected dependencies have a finish.\<close>

definition ready :: "string list \<Rightarrow> deps_map \<Rightarrow> fwd_state \<Rightarrow> string \<Rightarrow> bool" where
  "ready components dm st c =
     list_all (\<lambda>d. map_of (finishes st) d \<noteq> None) (deps_limited components dm c)"

text \<open>
  The state of the relaxation is sound: the resolved components are the selected ones
  that are no longer remaining, each with a start not before its own date and a finish
  that is the start plus the lead days, negative lead days counting as 0.
\<close>

definition fwd_inv ::
  "string list \<Rightarrow> (string \<rightharpoonup> date) \<Rightarrow> (string \<rightharpoonup> int) \<Rightarrow> date \<Rightarrow> fwd_state \<Rightarrow> bool" where
  "fwd_inv components sbc ld today st =
     (distinct (remaining st) \<and> set (remaining st) \<subseteq> set components \<and>
      fst ` set (finishes st) = set components - set (remaining st) \<and>
      dom (starts st) = set components - set (remaining st) \<and>
      (\<forall>c s f. starts st c = Some s \<and> map_of (finishes st) c = Some f \<longrightarrow>
         get_or (sbc c) today \<le> s \<and> f = s + max 0 (get_or (ld c) 0)))"

text \<open>Every resolved component starts after the finish of each selected dependency.\<close>

definition fwd_deps_ok :: "string list \<Rightarrow> deps_map \<Rightarrow> fwd_state \<Rightarrow> bool" where
  "fwd_deps_ok components dm st =
     (\<forall>c s. starts st c = Some s \<longrightarrow>
        (\<forall>d \<in> set (deps_limited components dm c).
           \<exists>f. map_of (finishes st) d = Some f \<and> f \<le> s))"


text \<open>
  The notions that describe the numeric token of a text \<open>pre @ sg @ ip @ ...\<close>: the text
  \<open>pre\<close> before the token has no digit and, when the token has no sign, does not end
  with one; after a token without fraction comes no digit and no separator followed by
  a digit; after the digits of a fraction comes no digit. The sign \<open>-\<close> negates.
\<close>

definition token_start :: "string \<Rightarrow> string \<Rightarrow> bool" where
  "token_start pre sg =
     ((\<forall>c \<in> set pre. \<not> is_digit c) \<and>
      (sg = ''-'' \<or> sg = ''+'' \<or> sg = [] \<and> (pre = [] \<or> \<not> is_sign (last pre))))"

definition no_fraction :: "string \<Rightarrow> bool" where
  "no_fraction post =
     (case post of [] \<Rightarrow> True
      | c # rest \<Rightarrow> \<not> is_digit c \<and> \<not> (is_sep c \<and> rest \<noteq> [] \<and> is_digit (hd rest)))"

definition digits_end :: "string \<Rightarrow> bool" where
  "digits_end post = (post = [] \<or> \<not> is_digit (hd post))"

definition token_sign :: "string \<Rightarrow> real" where
  "token_sign sg = (if sg = ''-'' then - 1 else 1)"

text \<open>
  The offer that \<open>compute_offer\<close> returns when nothing overflows, from the fields \<open>f\<close>,
  the ordered quantity as a float \<open>y\<close>, the flat amount and the percentage as a
  fraction \<open>p\<close>.
\<close>

definition offer_record ::
  "fields \<Rightarrow> int \<Rightarrow> date \<Rightarrow> pyfloat \<Rightarrow> pyfloat \<Rightarrow> pyfloat \<Rightarrow> offer" where
  "offer_record f requested target_date y flat p =
     \<lparr>requested_qty = requested,
      qty_ordered = ceil_to_lot (max requested (f_moq f)) (f_lot_size f),
      air = \<lparr>
        unit_price = f_unit_price_air f,
        production_unit_cost = f_production_unit_cost f,
        transport_unit_cost = f_air_transport_unit_cost f,
        production_total_pre_overhead = fmul y (f_production_unit_cost f),
        transport_total_pre_overhead = fmul y (f_air_transport_unit_cost f),
        lead_time_days = f_lead_time_air_days f,
        total_cost = fmul (fadd (fmul y (f_unit_price_air f)) flat) (fadd (Fl 1) p),
        order_by = target_date - f_lead_time_air_days f \<rparr>,
      sea = \<lparr>
        unit_price = f_unit_price_sea f,
        production_unit_cost = f_production_unit_cost f,
        transport_unit_cost = f_sea_transport_unit_cost f,
        production_total_pre_overhead = fmul y (f_production_unit_cost f),
        transport_total_pre_overhead = fmul y (f_sea_transport_unit_cost f),
        lead_time_days = f_lead_time_sea_days f,
        total_cost = fmul (fadd (fmul y (f_unit_price_sea f)) flat) (fadd (Fl 1) p),
        order_by = target_date - f_lead_time_sea_days f \<rparr> \<rparr>"

text \<open>
  Nothing overflows, in plain numbers: the ordered quantity has at most 53 bits, the
  target is a date, and so are the target minus each of the two lead times.
\<close>

definition offer_in_range :: "fields \<Rightarrow> int \<Rightarrow> date \<Rightarrow> bool" where
  "offer_in_range f requested target_date =
     (\<bar>ceil_to_lot (max requested (f_moq f)) (f_lot_size f)\<bar> \<le> 2 ^ 53 \<and>
      1 \<le> target_date \<and> target_date \<le> 3652059 \<and>
      1 \<le> target_date - f_lead_time_air_days f \<and>
      target_date - f_lead_time_air_days f \<le> 3652059 \<and>
      1 \<le> target_date - f_lead_time_sea_days f \<and>
      target_date - f_lead_time_sea_days f \<le> 3652059)"

section \<open>Example inputs\<close>

text \<open>
  The production tier table \<open>{200: 5.50, 1000: 5.00, 5000: 4.50}\<close>: the table maps each
  breakpoint to its column and the row holds the three prices, as text.
\<close>

definition example_tiers :: tiers where
  "example_tiers = [(200, ''CU pour 200''), (1000, ''CU pour 1000''), (5000, ''CU pour 5000'')]"

definition example_row :: row where
  "example_row =
     [''CU pour 200'' \<mapsto> CStr ''5.50'', ''CU pour 1000'' \<mapsto> CStr ''5.00'',
      ''CU pour 5000'' \<mapsto> CStr ''4.50'']"

text \<open>
  A row with the transport prices, the production time, the fixed transport times, the
  MOQ and the lot size, its column mapping, and a pricing configuration.
\<close>

definition example_offer_row :: row where
  "example_offer_row =
     [''CU pour 200'' \<mapsto> CStr ''5.50'', ''CU pour 1000'' \<mapsto> CStr ''5.00'',
      ''CU pour 5000'' \<mapsto> CStr ''4.50'',
      ''CTA pour 200'' \<mapsto> CStr ''0.50'', ''CTB pour 200'' \<mapsto> CStr ''0.20'',
      ''Temps de prod pour 200'' \<mapsto> CStr ''2'',
      ''Delais de transport Avion'' \<mapsto> CStr ''1'',
      ''Delais de transport Bateau'' \<mapsto> CStr ''4'',
      ''MOQ'' \<mapsto> CStr ''100'', ''Lot'' \<mapsto> CStr ''50'']"

definition example_mapping :: mapping where
  "example_mapping =
     \<lparr>tiers_production = Some example_tiers,
      tiers_air_transport = Some [(200, ''CTA pour 200'')],
      tiers_sea_transport = Some [(200, ''CTB pour 200'')],
      tiers_production_time = Some [(200, ''Temps de prod pour 200'')],
      moq = Some ''MOQ'',
      lot_size = Some ''Lot'',
      air_transport_time_column = Some ''Delais de transport Avion'',
      sea_transport_time_column = Some ''Delais de transport Bateau''\<rparr>"

definition example_config :: config where
  "example_config =
     \<lparr>pricing = Some \<lparr>handling_flat = Some (Fl 25), handling_percent = Some (Fl 10)\<rparr>\<rparr>"

text \<open>A row with a negative MOQ and an empty lot size cell.\<close>

definition example_bad_row :: row where
  "example_bad_row = [''MOQ'' \<mapsto> CStr ''-5'', ''Lot'' \<mapsto> CFloat NaN]"

text \<open>Two dependency maps: a diamond, and a cycle with a self-reference.\<close>

definition example_diamond :: deps_map where
  "example_diamond = [(''A'', [''B'', ''C'']), (''B'', [''D'']), (''C'', [''D''])]"

definition example_cycle :: deps_map where
  "example_cycle = [(''A'', [''B'']), (''B'', [''A'']), (''C'', [''C''])]"






section \<open>Floats\<close>

lemma bind_err_Inr: "bind_err (Inr v) f = f v"
  by (simp add: bind_err_def)

lemma bind_err_Inl: "bind_err (Inl e) f = Inl e"
  by (simp add: bind_err_def)

lemma bit_length_bounds:
  "0 < n \<Longrightarrow> 1 \<le> bit_length n \<and> 2 ^ nat (bit_length n - 1) \<le> n \<and> n < 2 ^ nat (bit_length n)"
proof (induction n rule: bit_length.induct)
  case (1 n)
  show ?case
  proof (cases "n = 1")
    case True
    have "bit_length 1 = 1"
      by (subst bit_length.simps, subst bit_length.simps) simp
    then show ?thesis using True by simp
  next
    case False
    then have h: "0 < n div 2" using 1 by simp
    let ?k = "bit_length (n div 2)"
    have ih: "1 \<le> ?k" "2 ^ nat (?k - 1) \<le> n div 2" "n div 2 < 2 ^ nat ?k"
      using 1 h by simp_all
    have e: "bit_length n = 1 + ?k" using 1(2) by (subst bit_length.simps) simp
    have n1: "nat (1 + ?k - 1) = Suc (nat (?k - 1))" using ih(1) by simp
    have n2: "nat (1 + ?k) = Suc (nat ?k)" using ih(1) by simp
    have lo: "2 * 2 ^ nat (?k - 1) \<le> n" using ih(2) by linarith
    have hi: "n < 2 * 2 ^ nat ?k" using ih(3) by linarith
    show ?thesis unfolding e n1 n2 using ih(1) lo hi by simp
  qed
qed

lemma round_half_even_int: "round_half_even (of_int k) = k"
  by (simp add: round_half_even_def)

text \<open>Integers of at most 53 bits are floats: converting them changes nothing.\<close>

lemma round64_small_nat:
  assumes "0 < n" "n \<le> 2 ^ 53"
  shows "round64 (of_int n) = Fl (of_int n)"
proof -
  define e where "e = bit_length n - 1"
  have b: "1 \<le> bit_length n" "2 ^ nat e \<le> n" "n < 2 ^ nat (bit_length n)"
    using bit_length_bounds[OF assms(1)] by (simp_all add: e_def)
  have e0: "0 \<le> e" using b(1) by (simp add: e_def)
  have "\<not> 54 \<le> nat e"
  proof
    assume "54 \<le> nat e"
    then have "(2::int) ^ 54 \<le> 2 ^ nat e" by (rule power_increasing) simp
    then show False using b(2) assms(2) by simp
  qed
  then have e53: "e \<le> 53" by simp
  have ex: "exponent2 (of_int n) = e" using assms(1) by (simp add: exponent2_def e_def)
  have mx: "max e (- 1022) = e" using e0 by simp
  have big: "\<not> pow2 1024 \<le> (of_int n :: real)"
  proof -
    have "n < 2 ^ 1024" using assms(2) by simp
    then have "(of_int n :: real) < of_int (2 ^ 1024)" by (simp only: of_int_less_iff)
    then show ?thesis by (simp add: pow2_def)
  qed
  define q where "q = pow2 (e - 52)"
  have r: "of_int (round_half_even (of_int n / q)) * q = (of_int n :: real)"
  proof (cases "e \<le> 52")
    case True
    then have q: "q = 1 / 2 ^ nat (52 - e)"
      by (cases "e = 52") (simp_all add: pow2_def q_def)
    have "of_int n / q = (of_int (n * 2 ^ nat (52 - e)) :: real)"
      by (simp add: q)
    then have "round_half_even (of_int n / q) = n * 2 ^ nat (52 - e)"
      by (simp only: round_half_even_int)
    then show ?thesis by (simp add: q)
  next
    case False
    then have e: "e = 53" using e53 by simp
    have "(2::int) ^ 53 \<le> n" using b(2) e by simp
    then have n: "n = 2 ^ 53" using assms(2) by simp
    have q: "q = 2" by (simp add: e pow2_def q_def)
    have "of_int n / q = (of_int (2 ^ 52) :: real)" by (simp add: q n)
    then have "round_half_even (of_int n / q) = 2 ^ 52"
      by (simp only: round_half_even_int)
    then show ?thesis by (simp add: q n)
  qed
  have "round64_pos (of_int n) = Fl (of_int n)"
    unfolding round64_pos_def Let_def ex mx q_def[symmetric] r using big by simp
  then show ?thesis using assms(1) by (simp add: round64_def)
qed

lemma round64_small_int:
  assumes "\<bar>n\<bar> \<le> 2 ^ 53"
  shows "round64 (of_int n) = Fl (of_int n)"
proof -
  consider "n = 0" | "0 < n" | "n < 0" by linarith
  then show ?thesis
  proof cases
    case 1
    then show ?thesis by (simp add: round64_def)
  next
    case 2
    then show ?thesis using round64_small_nat[of n] assms by simp
  next
    case 3
    then have p: "0 < - n" "- n \<le> 2 ^ 53" using assms by simp_all
    have "round64 (of_int (- n)) = Fl (of_int (- n))" by (rule round64_small_nat[OF p])
    then have "round64_pos (- of_int n) = Fl (- of_int n)" using 3 by (simp add: round64_def)
    then show ?thesis using 3 by (simp add: round64_def)
  qed
qed

lemma float_of_int_small: "\<bar>n\<bar> \<le> 2 ^ 53 \<Longrightarrow> float_of_int n = Inr (Fl (of_int n))"
  by (simp add: float_of_int_def round64_small_int)

lemma float_of_int_error: "float_of_int n = Inl e \<Longrightarrow> e = OverflowError"
  by (simp add: float_of_int_def split: pyfloat.splits)

lemma fdiv_100: "\<exists>p. fdiv x (Fl 100) = Inr p"
  by (cases x) simp_all

lemma int_of_float_small: "\<bar>n\<bar> \<le> 2 ^ 53 \<Longrightarrow> bind_err (Inr (round64 (of_int n))) int_of_float = Inr n"
  by (simp add: round64_small_int bind_err_def)

text \<open>Unfolding these evaluates the rounding of a given number.\<close>

lemmas round64_eval = round64_def round64_pos_def exponent2_def bit_length.simps pow2_def
  round_half_even_def Let_def

lemmas text_eval = match_number_def is_digit_def is_sign_def is_sep_def unsigned_decimal_def
  nat_of_digits_def digit_val_def

text \<open>A number of \<open>2 ^ 1024\<close> or more rounds to infinity.\<close>

lemma round_half_even_floor: "\<lfloor>x\<rfloor> \<le> round_half_even x"
  by (simp add: round_half_even_def Let_def)

lemma round64_huge:
  assumes "2 ^ 1024 \<le> a"
  shows "round64 a = PInf"
proof -
  define n where "n = \<lfloor>a\<rfloor>"
  define e where "e = bit_length n - 1"
  have a1: "1 \<le> a" using assms by (rule order_trans[rotated]) simp
  have a0: "0 < a" using a1 by simp
  have "(2::int) ^ 1024 \<le> \<lfloor>a\<rfloor>" using assms by (simp add: le_floor_iff)
  then have n: "2 ^ 1024 \<le> n" by (simp add: n_def)
  then have n0: "0 < n" by (rule less_le_trans[rotated]) simp
  have b: "2 ^ nat e \<le> n" "n < 2 ^ nat (bit_length n)"
    using bit_length_bounds[OF n0] by (simp_all add: e_def)
  have "\<not> nat (bit_length n) \<le> 1024"
  proof
    assume "nat (bit_length n) \<le> 1024"
    then have "(2::int) ^ nat (bit_length n) \<le> 2 ^ 1024" by (rule power_increasing) simp
    then show False using b(2) n by linarith
  qed
  then have e: "1024 \<le> e" by (simp add: e_def)
  have ex: "exponent2 a = e" using a1 by (simp add: exponent2_def e_def n_def)
  have mx: "max e (- 1022) = e" using e by simp
  define k where "k = nat (e - 52)"
  have ne: "nat e = 52 + k" using e by (simp add: k_def)
  have q: "pow2 (e - 52) = 2 ^ k" using e by (simp add: pow2_def k_def)
  have "(of_int (2 ^ nat e) :: real) \<le> of_int n" using b(1) by (simp only: of_int_le_iff)
  also have "\<dots> \<le> a" by (simp add: n_def)
  finally have lo: "(2::real) ^ 52 * 2 ^ k \<le> a" by (simp add: ne power_add)
  then have "(2::real) ^ 52 \<le> a / 2 ^ k" by (simp add: pos_le_divide_eq)
  then have "(2::int) ^ 52 \<le> \<lfloor>a / 2 ^ k\<rfloor>" by (simp add: le_floor_iff)
  then have m: "(2::int) ^ 52 \<le> round_half_even (a / 2 ^ k)"
    using round_half_even_floor[of "a / 2 ^ k"] by linarith
  have "(2::real) ^ 1024 \<le> 2 ^ nat e" using e by (intro power_increasing) simp_all
  also have "\<dots> = of_int (2 ^ 52) * 2 ^ k" by (simp add: ne power_add)
  also have "\<dots> \<le> of_int (round_half_even (a / 2 ^ k)) * 2 ^ k"
    using m by (intro mult_right_mono) (simp_all only: of_int_le_iff zero_le_power zero_le_numeral)
  finally have big: "pow2 1024 \<le> of_int (round_half_even (a / 2 ^ k)) * 2 ^ k"
    by (simp add: pow2_def)
  have "round64_pos a = PInf"
    unfolding round64_pos_def Let_def ex mx q using big by simp
  then show ?thesis using a0 by (simp add: round64_def)
qed

lemma float_of_int_huge: "2 ^ 1024 \<le> n \<Longrightarrow> float_of_int n = Inl OverflowError"
proof -
  assume "2 ^ 1024 \<le> n"
  then have "(of_int (2 ^ 1024) :: real) \<le> of_int n" by (simp only: of_int_le_iff)
  then have "round64 (of_int n) = PInf" by (intro round64_huge) simp
  then show ?thesis by (simp add: float_of_int_def)
qed

section \<open>Tier resolution\<close>

lemma select_tier_none: "\<forall>x \<in> set qs. rq < x \<Longrightarrow> select_tier qs rq acc = acc"
  by (induction qs arbitrary: acc) auto

lemma select_tier_largest:
  "sorted qs \<Longrightarrow> k \<le> rq \<Longrightarrow>
   (acc = Some k \<and> (\<forall>x \<in> set qs. k \<le> x)) \<or> k \<in> set qs \<Longrightarrow>
   \<forall>x \<in> set qs. x \<le> rq \<longrightarrow> x \<le> k \<Longrightarrow>
   select_tier qs rq acc = Some k"
proof (induction qs arbitrary: acc)
  case Nil
  then show ?case by simp
next
  case (Cons q qs)
  show ?case
  proof (cases "q \<le> rq")
    case True
    then have "q \<le> k" using Cons.prems by simp
    have "(Some q = Some k \<and> (\<forall>x \<in> set qs. k \<le> x)) \<or> k \<in> set qs"
      using Cons.prems \<open>q \<le> k\<close> by fastforce
    then have "select_tier qs rq (Some q) = Some k"
      using Cons.IH[of "Some q"] Cons.prems by simp
    then show ?thesis using True by simp
  next
    case False
    then have "acc = Some k" using Cons.prems by fastforce
    then show ?thesis using False by simp
  qed
qed

lemma set_dict_keys: "set (dict_keys d) = fst ` set d"
  by (simp add: dict_keys_def)

lemma hd_sort_least:
  "sort xs = q # qs \<Longrightarrow> q \<in> set xs \<and> (\<forall>x \<in> set xs. q \<le> x)"
proof -
  assume a: "sort xs = q # qs"
  have s: "sorted (q # qs)" using a sorted_sort[of xs] by simp
  have e: "set (q # qs) = set xs" using a set_sort[of "\<lambda>x. x" xs] by simp
  show ?thesis using s e by auto
qed

lemma to_float0_example: "to_float0 (CStr ''5.50'') = Fl 5.5"
  by (simp add: to_float0_def to_float_def to_float_try_def text_eval round64_eval)

lemma pick_example_cell:
  "pick_tier_value example_row example_tiers 800 conv = Inr (conv (CStr ''5.50''))"
  by (simp add: pick_tier_value_def example_tiers_def example_row_def dict_keys_def
      bind_err_def row_get_def)

text \<open>
  C1. For every row, tier table, requested quantity and coercion: an empty table gives 0;
  when a breakpoint is at most the requested quantity, the result is the coerced cell of
  the column of the largest such breakpoint; when every breakpoint is larger than the
  requested quantity, it is the coerced cell of the column of the smallest breakpoint.
  No case raises. For the table \<open>{200: 5.50, 1000: 5.00, 5000: 4.50}\<close> and the quantity
  800 the result is 5.50, the value at breakpoint 200.
\<close>

theorem pick_tier_value_resolves:
  fixes conv :: "cell \<Rightarrow> 'a::zero"
  shows
    "(tiers = [] \<longrightarrow> pick_tier_value r tiers q conv = Inr 0) \<and>
     (\<forall>k col. map_of tiers k = Some col \<and> k \<le> q \<and>
        (\<forall>k' \<in> fst ` set tiers. k' \<le> q \<longrightarrow> k' \<le> k) \<longrightarrow>
        pick_tier_value r tiers q conv = Inr (conv (row_get r col (CInt 0)))) \<and>
     (\<forall>k col. map_of tiers k = Some col \<and>
        (\<forall>k' \<in> fst ` set tiers. q < k' \<and> k \<le> k') \<longrightarrow>
        pick_tier_value r tiers q conv = Inr (conv (row_get r col (CInt 0)))) \<and>
     pick_tier_value example_row example_tiers 800 to_float0 = Inr (Fl 5.5)"
proof (intro conjI allI impI)
  assume "tiers = []"
  then show "pick_tier_value r tiers q conv = Inr 0" by (simp add: pick_tier_value_def)
next
  fix k col
  assume a: "map_of tiers k = Some col \<and> k \<le> q \<and>
        (\<forall>k' \<in> fst ` set tiers. k' \<le> q \<longrightarrow> k' \<le> k)"
  then have kin: "k \<in> fst ` set tiers" by (metis map_of_eq_None_iff option.distinct(1))
  then have ne: "tiers \<noteq> []" by auto
  have k1: "k \<in> set (sort (dict_keys tiers))" using kin by (simp add: set_dict_keys)
  have k2: "\<forall>x \<in> set (sort (dict_keys tiers)). x \<le> q \<longrightarrow> x \<le> k"
    using a by (simp add: set_dict_keys)
  have "select_tier (sort (dict_keys tiers)) q None = Some k"
    using select_tier_largest[of "sort (dict_keys tiers)" k q None] a k1 k2 by simp
  then show "pick_tier_value r tiers q conv = Inr (conv (row_get r col (CInt 0)))"
    using a ne by (simp add: pick_tier_value_def bind_err_def)
next
  fix k col
  assume a: "map_of tiers k = Some col \<and>
        (\<forall>k' \<in> fst ` set tiers. q < k' \<and> k \<le> k')"
  then have kin: "k \<in> fst ` set tiers" by (metis map_of_eq_None_iff option.distinct(1))
  then have ne: "tiers \<noteq> []" by auto
  have "\<forall>x \<in> set (sort (dict_keys tiers)). q < x" using a by (simp add: set_dict_keys)
  then have none: "select_tier (sort (dict_keys tiers)) q None = None"
    by (rule select_tier_none)
  have "k \<in> set (sort (dict_keys tiers))" using kin by (simp add: set_dict_keys)
  then have "sort (dict_keys tiers) \<noteq> []" by (metis empty_iff list.set(1))
  then obtain q0 qs where s: "sort (dict_keys tiers) = q0 # qs"
    by (cases "sort (dict_keys tiers)") auto
  then have "q0 \<in> fst ` set tiers \<and> (\<forall>x \<in> fst ` set tiers. q0 \<le> x)"
    using hd_sort_least[OF s] by (simp add: set_dict_keys)
  then have "q0 = k" using a kin by force
  then show "pick_tier_value r tiers q conv = Inr (conv (row_get r col (CInt 0)))"
    using a ne none s by (simp add: pick_tier_value_def bind_err_def)
next
  show "pick_tier_value example_row example_tiers 800 to_float0 = Inr (Fl 5.5)"
    by (simp add: pick_example_cell to_float0_example)
qed

text \<open>
  The theorem at the example table: 200 is the largest breakpoint at most 800, 200 is the
  smallest breakpoint and is used for the quantity 50, and the empty table gives 0.
\<close>

theorem pick_tier_value_resolves_witness:
  "pick_tier_value example_row example_tiers 800 to_float0 =
     Inr (to_float0 (row_get example_row ''CU pour 200'' (CInt 0))) \<and>
   pick_tier_value example_row example_tiers 50 to_float0 =
     Inr (to_float0 (row_get example_row ''CU pour 200'' (CInt 0))) \<and>
   to_float0 (row_get example_row ''CU pour 200'' (CInt 0)) = Fl 5.5 \<and>
   pick_tier_value example_row [] 800 to_float0 = Inr 0"
proof -
  have m: "map_of example_tiers 200 = Some ''CU pour 200''"
    by (simp add: example_tiers_def)
  have hi: "\<forall>k' \<in> fst ` set example_tiers. k' \<le> 800 \<longrightarrow> k' \<le> 200"
    by (simp add: example_tiers_def)
  have lo: "\<forall>k' \<in> fst ` set example_tiers. (50::int) < k' \<and> 200 \<le> k'"
    by (simp add: example_tiers_def)
  have le: "(200::int) \<le> 800" by simp
  have a: "pick_tier_value example_row example_tiers 800 to_float0 =
      Inr (to_float0 (row_get example_row ''CU pour 200'' (CInt 0)))"
    using pick_tier_value_resolves[of example_tiers example_row 800 to_float0] m hi le by blast
  have b: "pick_tier_value example_row example_tiers 50 to_float0 =
      Inr (to_float0 (row_get example_row ''CU pour 200'' (CInt 0)))"
    using pick_tier_value_resolves[of example_tiers example_row 50 to_float0] m lo by blast
  have c: "to_float0 (row_get example_row ''CU pour 200'' (CInt 0)) = Fl 5.5"
    by (simp add: row_get_def example_row_def to_float0_example)
  have d: "pick_tier_value example_row [] 800 to_float0 = Inr 0"
    using pick_tier_value_resolves[of "[]" example_row 800 to_float0] by blast
  show ?thesis using a b c d by simp
qed

section \<open>Numeric coercion\<close>

lemma is_digit_simps:
  "is_digit c \<Longrightarrow> c \<noteq> CHR ''-''" "is_digit c \<Longrightarrow> c \<noteq> CHR ''+''"
  "is_digit c \<Longrightarrow> c \<noteq> CHR '',''" "is_digit c \<Longrightarrow> c \<noteq> CHR ''.''"
  by (auto simp: is_digit_def)

lemma replace_digits: "list_all is_digit ds \<Longrightarrow> map (\<lambda>c. if c = CHR '','' then CHR ''.'' else c) ds = ds"
  by (induction ds) (auto simp: is_digit_simps)

lemma takeWhile_all: "list_all P xs \<Longrightarrow> takeWhile P xs = xs"
  by (induction xs) auto

lemma dropWhile_all: "list_all P xs \<Longrightarrow> dropWhile P xs = []"
  by (induction xs) auto

lemma takeWhile_stop: "list_all P xs \<Longrightarrow> \<not> P y \<Longrightarrow> takeWhile P (xs @ y # ys) = xs"
  by (induction xs) auto

lemma dropWhile_stop: "list_all P xs \<Longrightarrow> \<not> P y \<Longrightarrow> dropWhile P (xs @ y # ys) = y # ys"
  by (induction xs) auto

lemma list_all_takeWhile: "list_all P (takeWhile P xs)"
  by (induction xs) auto

lemma unsigned_decimal_int:
  assumes "ds \<noteq> []" "list_all is_digit ds"
  shows "unsigned_decimal ds = Some (of_nat (nat_of_digits ds))"
  using assms(1) by (simp add: unsigned_decimal_def takeWhile_all[OF assms(2)]
      dropWhile_all[OF assms(2)])

lemma unsigned_decimal_frac:
  assumes "ds \<noteq> []" "list_all is_digit ds" "fs \<noteq> []" "list_all is_digit fs"
  shows "unsigned_decimal (ds @ CHR ''.'' # fs) =
     Some (of_nat (nat_of_digits ds) + of_nat (nat_of_digits fs) / 10 ^ length fs)"
proof -
  have nd: "\<not> is_digit (CHR ''.'')" by (simp add: is_digit_def)
  show ?thesis
    using assms(1,3,4)
    by (simp add: unsigned_decimal_def takeWhile_stop[OF assms(2) nd]
        dropWhile_stop[OF assms(2) nd])
qed

text \<open>The shape of a token: sign, digits, fraction.\<close>

lemma match_number_shape:
  assumes "match_number s = Some t"
  shows "\<exists>sg ds fr post. s = sg @ ds @ fr @ post \<and> t = sg @ ds @ fr \<and>
           (sg = [] \<or> sg = [CHR ''-''] \<or> sg = [CHR ''+'']) \<and>
           ds \<noteq> [] \<and> list_all is_digit ds \<and>
           (fr = [] \<or> (\<exists>c fs. fr = c # fs \<and> is_sep c \<and> fs \<noteq> [] \<and> list_all is_digit fs))"
proof -
  define sg where "sg = (case s of [] \<Rightarrow> [] | c # _ \<Rightarrow> if is_sign c then [c] else [])"
  define r where "r = drop (length sg) s"
  define ds where "ds = takeWhile is_digit r"
  define rest where "rest = dropWhile is_digit r"
  define fr where "fr = (case rest of [] \<Rightarrow> [] | c # r2 \<Rightarrow>
      if is_sep c \<and> takeWhile is_digit r2 \<noteq> [] then c # takeWhile is_digit r2 else [])"
  have m: "match_number s = (if ds = [] then None else Some (sg @ ds @ fr))"
    by (simp add: match_number_def sg_def r_def ds_def rest_def fr_def Let_def)
  then have ne: "ds \<noteq> []" and t: "t = sg @ ds @ fr" using assms by (auto split: if_splits)
  have sgs: "sg = [] \<or> sg = [CHR ''-''] \<or> sg = [CHR ''+'']"
    by (auto simp: sg_def is_sign_def split: list.splits)
  have s1: "s = sg @ r" by (auto simp: r_def sg_def split: list.splits)
  have s2: "r = ds @ rest" by (simp add: ds_def rest_def)
  have "\<exists>post. rest = fr @ post \<and>
      (fr = [] \<or> (\<exists>c fs. fr = c # fs \<and> is_sep c \<and> fs \<noteq> [] \<and> list_all is_digit fs))"
  proof (cases rest)
    case Nil
    then show ?thesis by (simp add: fr_def)
  next
    case (Cons c r2)
    show ?thesis
    proof (cases "is_sep c \<and> takeWhile is_digit r2 \<noteq> []")
      case True
      then have "fr = c # takeWhile is_digit r2" using Cons by (simp add: fr_def)
      moreover have "rest = (c # takeWhile is_digit r2) @ dropWhile is_digit r2"
        using Cons by simp
      ultimately show ?thesis using True list_all_takeWhile[of is_digit r2] by blast
    next
      case False
      then have "fr = []" using Cons by (auto simp add: fr_def)
      then show ?thesis by simp
    qed
  qed
  then obtain post where "rest = fr @ post"
    and frs: "fr = [] \<or> (\<exists>c fs. fr = c # fs \<and> is_sep c \<and> fs \<noteq> [] \<and> list_all is_digit fs)"
    by blast
  then have "s = sg @ ds @ fr @ post" using s1 s2 by simp
  moreover have "list_all is_digit ds" by (simp add: ds_def list_all_takeWhile)
  ultimately show ?thesis using t sgs ne frs by blast
qed

lemma float_of_token:
  assumes "match_number s = Some t"
  shows "\<exists>x. float_of_text (replace_comma (Plain t)) = Inr x"
proof -
  obtain sg ds fr where t: "t = sg @ ds @ fr"
    and sgs: "sg = [] \<or> sg = [CHR ''-''] \<or> sg = [CHR ''+'']"
    and ne: "ds \<noteq> []" and dig: "list_all is_digit ds"
    and frs: "fr = [] \<or> (\<exists>c fs. fr = c # fs \<and> is_sep c \<and> fs \<noteq> [] \<and> list_all is_digit fs)"
    using match_number_shape[OF assms] by blast
  let ?rp = "map (\<lambda>c. if c = CHR '','' then CHR ''.'' else c)"
  have "\<exists>x. unsigned_decimal (ds @ ?rp fr) = Some x"
  proof -
    from frs show ?thesis
    proof
      assume "fr = []"
      then show ?thesis using unsigned_decimal_int[OF ne dig] by simp
    next
      assume "\<exists>c fs. fr = c # fs \<and> is_sep c \<and> fs \<noteq> [] \<and> list_all is_digit fs"
      then obtain c fs where f: "fr = c # fs" "is_sep c" "fs \<noteq> []" "list_all is_digit fs"
        by blast
      then have "?rp fr = CHR ''.'' # fs" using replace_digits[of fs] by (auto simp: is_sep_def)
      then show ?thesis using unsigned_decimal_frac[OF ne dig f(3) f(4)] by simp
    qed
  qed
  then obtain x where x: "unsigned_decimal (ds @ ?rp fr) = Some x" by blast
  obtain d ds' where d: "ds = d # ds'" "is_digit d" using ne dig by (cases ds) auto
  have rt: "?rp t = ?rp sg @ ds @ ?rp fr" using t replace_digits[OF dig] by simp
  from sgs show ?thesis
  proof (elim disjE)
    assume "sg = []"
    then show ?thesis using rt x d by (simp add: is_digit_simps)
  next
    assume "sg = [CHR ''-'']"
    then show ?thesis using rt x by simp
  next
    assume "sg = [CHR ''+'']"
    then show ?thesis using rt x by simp
  qed
qed

text \<open>The value of a token: the sign applied to the decimal value, rounded.\<close>

lemma float_of_token_int:
  assumes sg: "sg = ''-'' \<or> sg = ''+'' \<or> sg = []"
    and ne: "ip \<noteq> []" and dig: "list_all is_digit ip"
  shows "float_of_text (replace_comma (Plain (sg @ ip))) =
     Inr (round64 (token_sign sg * of_nat (nat_of_digits ip)))"
proof -
  obtain d ds' where d: "ip = d # ds'" "is_digit d" using ne dig by (cases ip) auto
  note u = unsigned_decimal_int[OF ne dig]
  from sg show ?thesis
  proof (elim disjE)
    assume "sg = ''-''"
    then show ?thesis using u replace_digits[OF dig] by (simp add: token_sign_def)
  next
    assume "sg = ''+''"
    then show ?thesis using u replace_digits[OF dig] by (simp add: token_sign_def)
  next
    assume "sg = []"
    then show ?thesis
      using u replace_digits[OF dig] d by (simp add: token_sign_def is_digit_simps)
  qed
qed

lemma float_of_token_frac:
  assumes sg: "sg = ''-'' \<or> sg = ''+'' \<or> sg = []"
    and ne: "ip \<noteq> []" and dig: "list_all is_digit ip"
    and c: "is_sep c" and fne: "fp \<noteq> []" and fdig: "list_all is_digit fp"
  shows "float_of_text (replace_comma (Plain (sg @ ip @ c # fp))) =
     Inr (round64 (token_sign sg *
            (of_nat (nat_of_digits ip) + of_nat (nat_of_digits fp) / 10 ^ length fp)))"
proof -
  let ?rp = "map (\<lambda>c. if c = CHR '','' then CHR ''.'' else c)"
  obtain d ds' where d: "ip = d # ds'" "is_digit d" using ne dig by (cases ip) auto
  note u = unsigned_decimal_frac[OF ne dig fne fdig]
  have rc: "(if c = CHR '','' then CHR ''.'' else c) = CHR ''.''"
    using c by (auto simp: is_sep_def)
  have r: "?rp (ip @ c # fp) = ip @ CHR ''.'' # fp"
    using replace_digits[OF dig] replace_digits[OF fdig] rc by simp
  from sg show ?thesis
  proof (elim disjE)
    assume "sg = ''-''"
    then show ?thesis using u r by (simp add: token_sign_def)
  next
    assume "sg = ''+''"
    then show ?thesis using u r by (simp add: token_sign_def)
  next
    assume "sg = []"
    then show ?thesis using u r d by (simp add: token_sign_def is_digit_simps)
  qed
qed

lemma digit_char:
  assumes "d < 10"
  shows "is_digit (''0123456789'' ! d) \<and> digit_val (''0123456789'' ! d) = d"
proof -
  have "d = 0 \<or> d = 1 \<or> d = 2 \<or> d = 3 \<or> d = 4 \<or> d = 5 \<or> d = 6 \<or> d = 7 \<or> d = 8 \<or> d = 9"
    using assms by arith
  then show ?thesis by (elim disjE) (simp_all add: is_digit_def digit_val_def)
qed

lemma nat_of_digits_snoc: "nat_of_digits (xs @ [c]) = 10 * nat_of_digits xs + digit_val c"
  by (simp add: nat_of_digits_def)

lemma digits_of_nat_ok:
  "digits_of_nat n \<noteq> [] \<and> list_all is_digit (digits_of_nat n) \<and>
   nat_of_digits (digits_of_nat n) = n"
proof (induction n rule: digits_of_nat.induct)
  case (1 n)
  show ?case
  proof (cases "n < 10")
    case True
    then have "digits_of_nat n = [''0123456789'' ! n]"
      by (subst digits_of_nat.simps) simp
    then show ?thesis using digit_char[OF True] by (simp add: nat_of_digits_def)
  next
    case False
    then have e: "digits_of_nat n = digits_of_nat (n div 10) @ [''0123456789'' ! (n mod 10)]"
      by (subst digits_of_nat.simps) simp
    have m: "n mod 10 < 10" by simp
    have ih: "digits_of_nat (n div 10) \<noteq> [] \<and> list_all is_digit (digits_of_nat (n div 10)) \<and>
      nat_of_digits (digits_of_nat (n div 10)) = n div 10"
      using 1 False by simp
    show ?thesis
      unfolding e using ih digit_char[OF m] by (simp add: nat_of_digits_snoc)
  qed
qed

lemma float_of_str_int:
  "float_of_text (replace_comma (Plain (str_int i))) = Inr (round64 (of_int i))"
proof (cases "i < 0")
  case True
  let ?ds = "digits_of_nat (nat (- i))"
  have ok: "?ds \<noteq> []" "list_all is_digit ?ds" "nat_of_digits ?ds = nat (- i)"
    using digits_of_nat_ok[of "nat (- i)"] by simp_all
  have s: "str_int i = ''-'' @ ?ds" using True by (simp add: str_int_def del: digits_of_nat.simps)
  have "float_of_text (replace_comma (Plain (''-'' @ ?ds))) =
     Inr (round64 (token_sign ''-'' * of_nat (nat_of_digits ?ds)))"
    by (rule float_of_token_int[OF _ ok(1) ok(2)]) simp
  then show ?thesis unfolding s ok(3) using True by (simp add: token_sign_def)
next
  case False
  let ?ds = "digits_of_nat (nat i)"
  have ok: "?ds \<noteq> []" "list_all is_digit ?ds" "nat_of_digits ?ds = nat i"
    using digits_of_nat_ok[of "nat i"] by simp_all
  have s: "str_int i = [] @ ?ds" using False by (simp add: str_int_def del: digits_of_nat.simps)
  have "float_of_text (replace_comma (Plain ([] @ ?ds))) =
     Inr (round64 (token_sign [] * of_nat (nat_of_digits ?ds)))"
    by (rule float_of_token_int[OF _ ok(1) ok(2)]) simp
  then show ?thesis unfolding s ok(3) using False by (simp add: token_sign_def)
qed

lemma to_float_try_total: "\<exists>x. to_float_try v d = Inr x"
proof (cases v)
  case CNone
  then show ?thesis by (simp add: to_float_try_def)
next
  case (CInt i)
  then show ?thesis using float_of_str_int[of i] by (simp add: to_float_try_def)
next
  case (CFloat x)
  then show ?thesis by (simp add: to_float_try_def)
next
  case (CStr s)
  show ?thesis
  proof (cases "re_search s")
    case None
    then show ?thesis using CStr by (simp add: to_float_try_def)
  next
    case (Some t)
    have "\<exists>s'. match_number s' = Some t"
      using Some by (induction s) (auto split: option.splits)
    then obtain x where "float_of_text (replace_comma (Plain t)) = Inr x"
      using float_of_token by blast
    then show ?thesis using CStr Some by (simp add: to_float_try_def)
  qed
qed

lemma match_number_no_digit: "\<forall>c \<in> set s. \<not> is_digit c \<Longrightarrow> match_number s = None"
proof -
  assume a: "\<forall>c \<in> set s. \<not> is_digit c"
  have "\<And>n. takeWhile is_digit (drop n s) = []"
    using a by (metis in_set_dropD takeWhile_eq_Nil_iff hd_in_set)
  then show ?thesis by (simp add: match_number_def Let_def)
qed

lemma match_number_digit: "is_digit c \<Longrightarrow> match_number (c # cs) \<noteq> None"
  by (auto simp: match_number_def Let_def is_sign_def is_digit_def)

lemma re_search_None_iff: "re_search s = None \<longleftrightarrow> (\<forall>c \<in> set s. \<not> is_digit c)"
proof (induction s)
  case Nil
  then show ?case by simp
next
  case (Cons c cs)
  show ?case
  proof (cases "match_number (c # cs)")
    case None
    then have "\<not> is_digit c" using match_number_digit by blast
    then show ?thesis using None Cons by simp
  next
    case (Some t)
    have "\<not> (\<forall>x \<in> set (c # cs). \<not> is_digit x)"
      using Some match_number_no_digit[of "c # cs"] by auto
    then show ?thesis using Some by simp
  qed
qed

lemma re_search_first:
  "re_search s = Some t \<Longrightarrow>
   \<exists>pre post. s = pre @ t @ post \<and> (\<forall>c \<in> set pre. \<not> is_digit c)"
proof (induction s)
  case Nil
  then show ?case by simp
next
  case (Cons c cs)
  show ?case
  proof (cases "match_number (c # cs)")
    case None
    then have nd: "\<not> is_digit c" using match_number_digit by blast
    have "re_search cs = Some t" using Cons.prems None by simp
    then obtain pre post where "cs = pre @ t @ post" "\<forall>c \<in> set pre. \<not> is_digit c"
      using Cons.IH by blast
    then have "c # cs = (c # pre) @ t @ post \<and> (\<forall>x \<in> set (c # pre). \<not> is_digit x)"
      using nd by simp
    then show ?thesis by blast
  next
    case (Some t')
    then have "t' = t" using Cons.prems by simp
    then obtain post where "c # cs = t @ post"
      using match_number_shape[OF Some] by auto
    then have "c # cs = [] @ t @ post \<and> (\<forall>x \<in> set []. \<not> is_digit x)" by simp
    then show ?thesis by blast
  qed
qed

text \<open>The token that the search finds in a text of a given shape.\<close>

lemma match_number_token:
  assumes sg: "sg = ''-'' \<or> sg = ''+'' \<or> sg = []"
    and ne: "ip \<noteq> []" and dig: "list_all is_digit ip"
    and fr: "fr = [] \<and> no_fraction post \<or>
       (\<exists>c fp. fr = c # fp \<and> is_sep c \<and> fp \<noteq> [] \<and> list_all is_digit fp \<and> digits_end post)"
  shows "match_number (sg @ ip @ fr @ post) = Some (sg @ ip @ fr)"
proof -
  obtain d ds' where d: "ip = d # ds'" "is_digit d" using ne dig by (cases ip) auto
  have dn: "\<not> is_sign d" using d(2) by (auto simp: is_sign_def is_digit_def)
  define s where "s = sg @ ip @ fr @ post"
  have sgv: "(case s of [] \<Rightarrow> [] | c # _ \<Rightarrow> if is_sign c then [c] else []) = sg"
    using sg d dn by (auto simp: s_def is_sign_def)
  have dr: "drop (length sg) s = ip @ fr @ post" by (simp add: s_def)
  have stop: "fr @ post = [] \<or> \<not> is_digit (hd (fr @ post))"
    using fr by (auto simp: no_fraction_def digits_end_def is_sep_def is_digit_def
        split: list.splits)
  have tw: "takeWhile is_digit (ip @ fr @ post) = ip"
    and dw: "dropWhile is_digit (ip @ fr @ post) = fr @ post"
  proof -
    show "takeWhile is_digit (ip @ fr @ post) = ip"
    proof (cases "fr @ post")
      case Nil
      then show ?thesis using takeWhile_all[OF dig] by simp
    next
      case (Cons y ys)
      then have "\<not> is_digit y" using stop by simp
      then show ?thesis using takeWhile_stop[OF dig, of y ys] Cons by simp
    qed
    show "dropWhile is_digit (ip @ fr @ post) = fr @ post"
    proof (cases "fr @ post")
      case Nil
      then show ?thesis using dropWhile_all[OF dig] by simp
    next
      case (Cons y ys)
      then have "\<not> is_digit y" using stop by simp
      then show ?thesis using dropWhile_stop[OF dig, of y ys] Cons by simp
    qed
  qed
  have frv: "(case fr @ post of [] \<Rightarrow> []
      | c # r2 \<Rightarrow> if is_sep c \<and> takeWhile is_digit r2 \<noteq> [] then c # takeWhile is_digit r2
                  else []) = fr"
    using fr
  proof
    assume a: "fr = [] \<and> no_fraction post"
    show ?thesis
    proof (cases post)
      case Nil
      then show ?thesis using a by simp
    next
      case (Cons c rest)
      then have "\<not> (is_sep c \<and> rest \<noteq> [] \<and> is_digit (hd rest))"
        using a by (simp add: no_fraction_def)
      then have "\<not> (is_sep c \<and> takeWhile is_digit rest \<noteq> [])"
        by (cases rest) auto
      then show ?thesis using a Cons by simp
    qed
  next
    assume "\<exists>c fp. fr = c # fp \<and> is_sep c \<and> fp \<noteq> [] \<and> list_all is_digit fp \<and> digits_end post"
    then obtain c fp where f: "fr = c # fp" "is_sep c" "fp \<noteq> []" "list_all is_digit fp"
      "digits_end post" by blast
    have "takeWhile is_digit (fp @ post) = fp"
    proof (cases post)
      case Nil
      then show ?thesis using takeWhile_all[OF f(4)] by simp
    next
      case (Cons y ys)
      then have "\<not> is_digit y" using f(5) by (simp add: digits_end_def)
      then show ?thesis using takeWhile_stop[OF f(4), of y ys] Cons by simp
    qed
    then show ?thesis using f by simp
  qed
  have "match_number s = Some (sg @ ip @ fr)"
    unfolding match_number_def Let_def sgv dr tw dw frv using ne by simp
  then show ?thesis by (simp add: s_def)
qed

lemma re_search_token:
  assumes st: "token_start pre sg"
    and ne: "ip \<noteq> []" and dig: "list_all is_digit ip"
    and fr: "fr = [] \<and> no_fraction post \<or>
       (\<exists>c fp. fr = c # fp \<and> is_sep c \<and> fp \<noteq> [] \<and> list_all is_digit fp \<and> digits_end post)"
  shows "re_search (pre @ sg @ ip @ fr @ post) = Some (sg @ ip @ fr)"
  using st
proof (induction pre)
  case Nil
  then have sg: "sg = ''-'' \<or> sg = ''+'' \<or> sg = []" by (auto simp: token_start_def)
  obtain d ds' where d: "ip = d # ds'" using ne by (cases ip) auto
  have m: "match_number (sg @ ip @ fr @ post) = Some (sg @ ip @ fr)"
    by (rule match_number_token[OF sg ne dig fr])
  obtain x xs where x: "sg @ ip @ fr @ post = x # xs" using d by (cases sg) auto
  show ?case using m unfolding append_Nil x by simp
next
  case (Cons p ps)
  have nd: "\<forall>c \<in> set (p # ps). \<not> is_digit c"
    and sgc: "sg = ''-'' \<or> sg = ''+'' \<or> sg = [] \<and> \<not> is_sign (last (p # ps))"
    using Cons.prems by (auto simp: token_start_def)
  have st': "token_start ps sg"
    using nd sgc by (cases "ps = []") (auto simp: token_start_def)
  let ?rest = "ps @ sg @ ip @ fr @ post"
  obtain d ds' where d: "ip = d # ds'" using ne by (cases ip) auto
  have hd_nd: "?rest \<noteq> [] \<and> (is_sign p \<longrightarrow> \<not> is_digit (hd ?rest))"
  proof (cases ps)
    case Nil
    show ?thesis
    proof (cases "is_sign p")
      case True
      then have "sg = ''-'' \<or> sg = ''+''" using sgc Nil by auto
      then show ?thesis using Nil by (auto simp: is_digit_def)
    next
      case False
      then show ?thesis using d by simp
    qed
  next
    case (Cons y ys)
    then show ?thesis using nd by simp
  qed
  have "match_number (p # ?rest) = None"
  proof (cases "is_sign p")
    case True
    then have "takeWhile is_digit ?rest = []"
      using hd_nd by (cases ?rest) auto
    then show ?thesis using True by (simp add: match_number_def Let_def)
  next
    case False
    have "\<not> is_digit p" using nd by simp
    then show ?thesis using False by (simp add: match_number_def Let_def)
  qed
  then show ?case using Cons.IH[OF st'] by simp
qed

lemma to_float_examples:
  "to_float (CStr ''234,56'') d = Fl (4126423158578217 / 2 ^ 44)"
  "to_float (CStr ''1 234,56'') d = Fl 1"
  "to_float (CStr ''abc 12,5 kg'') d = Fl 12.5"
  "to_float (CStr ''-3.5 EUR'') d = Fl (- 3.5)"
  by (simp_all add: to_float_def to_float_try_def text_eval round64_eval)

lemma round64_examples:
  "round64 (23456 / 100) = Fl (4126423158578217 / 2 ^ 44)"
  "round64 (123456 / 100) = Fl (2714826150374277 / 2 ^ 41)"
  by (simp_all add: round64_eval)

text \<open>
  C8, as the code has it. Numeric coercion never raises: the \<open>try\<close> block itself always
  yields a float. An integer is returned as the nearest float and a float that is a
  number or an infinity unchanged. In a string the leftmost numeric token is found
  whatever text surrounds it: an optional sign, the digits, and a point or a comma
  with the digits after it; its value is the signed decimal number, the comma and the
  point both being the decimal point, rounded to a float. So \<open>234,56\<close> gives 234.56,
  \<open>abc 12,5 kg\<close> gives 12.5 and \<open>-3.5 EUR\<close> gives -3.5. A blank ends the token, so
  \<open>1 234,56\<close> gives 1. \<open>None\<close> and a string without a digit give the caller's default.
\<close>

theorem to_float_lenient:
  "(\<forall>v d. \<exists>x. to_float_try v d = Inr x \<and> to_float v d = x) \<and>
   (\<forall>n d. to_float (CInt n) d = round64 (of_int n)) \<and>
   (\<forall>x d. x \<noteq> NaN \<longrightarrow> to_float (CFloat x) d = x) \<and>
   (\<forall>d. to_float CNone d = d) \<and>
   (\<forall>s d. (\<forall>c \<in> set s. \<not> is_digit c) \<longrightarrow> to_float (CStr s) d = d) \<and>
   (\<forall>s d. (\<exists>c \<in> set s. is_digit c) \<longrightarrow>
      (\<exists>pre t post x. s = pre @ t @ post \<and> (\<forall>c \<in> set pre. \<not> is_digit c) \<and>
         re_search s = Some t \<and> float_of_text (replace_comma (Plain t)) = Inr x \<and>
         to_float (CStr s) d = x)) \<and>
   (\<forall>pre sg ip post d.
      token_start pre sg \<and> ip \<noteq> [] \<and> list_all is_digit ip \<and> no_fraction post \<longrightarrow>
      to_float (CStr (pre @ sg @ ip @ post)) d =
        round64 (token_sign sg * of_nat (nat_of_digits ip))) \<and>
   (\<forall>pre sg ip c fp post d.
      token_start pre sg \<and> ip \<noteq> [] \<and> list_all is_digit ip \<and> is_sep c \<and>
      fp \<noteq> [] \<and> list_all is_digit fp \<and> digits_end post \<longrightarrow>
      to_float (CStr (pre @ sg @ ip @ c # fp @ post)) d =
        round64 (token_sign sg *
          (of_nat (nat_of_digits ip) + of_nat (nat_of_digits fp) / 10 ^ length fp))) \<and>
   to_float (CStr ''234,56'') dflt = round64 (23456 / 100) \<and>
   to_float (CStr ''abc 12,5 kg'') dflt = Fl 12.5 \<and>
   to_float (CStr ''-3.5 EUR'') dflt = Fl (- 3.5) \<and>
   to_float (CStr ''1 234,56'') dflt = Fl 1"
proof (intro conjI allI impI)
  fix v d
  obtain x where "to_float_try v d = Inr x" using to_float_try_total by blast
  then show "\<exists>x. to_float_try v d = Inr x \<and> to_float v d = x"
    by (simp add: to_float_def)
next
  fix n d
  show "to_float (CInt n) d = round64 (of_int n)"
    using float_of_str_int[of n] by (simp add: to_float_def to_float_try_def)
next
  fix x d
  show "to_float (CFloat x) d = x" by (simp add: to_float_def to_float_try_def)
next
  fix d
  show "to_float CNone d = d" by (simp add: to_float_def to_float_try_def)
next
  fix s d
  assume "\<forall>c \<in> set s. \<not> is_digit c"
  then have "re_search s = None" using re_search_None_iff by blast
  then show "to_float (CStr s) d = d" by (simp add: to_float_def to_float_try_def)
next
  fix s d
  assume "\<exists>c \<in> set s. is_digit c"
  then have "re_search s \<noteq> None" using re_search_None_iff by blast
  then obtain t where t: "re_search s = Some t" by blast
  obtain pre post where p: "s = pre @ t @ post" "\<forall>c \<in> set pre. \<not> is_digit c"
    using re_search_first[OF t] by blast
  have "\<exists>s'. match_number s' = Some t"
    using t by (induction s) (auto split: option.splits)
  then obtain x where x: "float_of_text (replace_comma (Plain t)) = Inr x"
    using float_of_token by blast
  have "to_float (CStr s) d = x" using t x by (simp add: to_float_def to_float_try_def)
  then show "\<exists>pre t post x. s = pre @ t @ post \<and> (\<forall>c \<in> set pre. \<not> is_digit c) \<and>
         re_search s = Some t \<and> float_of_text (replace_comma (Plain t)) = Inr x \<and>
         to_float (CStr s) d = x"
    using t p x by blast
next
  fix pre sg ip post d
  assume a: "token_start pre sg \<and> ip \<noteq> [] \<and> list_all is_digit ip \<and> no_fraction post"
  then have sg: "sg = ''-'' \<or> sg = ''+'' \<or> sg = []" by (auto simp: token_start_def)
  have "re_search (pre @ sg @ ip @ [] @ post) = Some (sg @ ip @ [])"
    by (rule re_search_token) (use a in simp_all)
  then have t: "re_search (pre @ sg @ ip @ post) = Some (sg @ ip)" by simp
  have "float_of_text (replace_comma (Plain (sg @ ip))) =
     Inr (round64 (token_sign sg * of_nat (nat_of_digits ip)))"
    by (rule float_of_token_int[OF sg]) (use a in simp_all)
  then show "to_float (CStr (pre @ sg @ ip @ post)) d =
        round64 (token_sign sg * of_nat (nat_of_digits ip))"
    by (simp add: to_float_def to_float_try_def t)
next
  fix pre sg ip c fp post d
  assume a: "token_start pre sg \<and> ip \<noteq> [] \<and> list_all is_digit ip \<and> is_sep c \<and>
      fp \<noteq> [] \<and> list_all is_digit fp \<and> digits_end post"
  then have sg: "sg = ''-'' \<or> sg = ''+'' \<or> sg = []" by (auto simp: token_start_def)
  have "re_search (pre @ sg @ ip @ (c # fp) @ post) = Some (sg @ ip @ (c # fp))"
    by (rule re_search_token) (use a in simp_all)
  then have t: "re_search (pre @ sg @ ip @ c # fp @ post) = Some (sg @ ip @ c # fp)" by simp
  have "float_of_text (replace_comma (Plain (sg @ ip @ c # fp))) =
     Inr (round64 (token_sign sg *
            (of_nat (nat_of_digits ip) + of_nat (nat_of_digits fp) / 10 ^ length fp)))"
    by (rule float_of_token_frac[OF sg]) (use a in simp_all)
  then show "to_float (CStr (pre @ sg @ ip @ c # fp @ post)) d =
        round64 (token_sign sg *
          (of_nat (nat_of_digits ip) + of_nat (nat_of_digits fp) / 10 ^ length fp))"
    by (simp add: to_float_def to_float_try_def t)
qed (simp_all add: to_float_examples round64_eval)

text \<open>
  The claim as stated fails: the text \<open>1 234,56\<close> gives the float 1, which is not the
  float 1234.56.
\<close>

theorem to_float_thousands_counterexample:
  "to_float (CStr ''1 234,56'') (Fl 0) = Fl 1 \<and>
   round64 (123456 / 100) = Fl (2714826150374277 / 2 ^ 41) \<and>
   to_float (CStr ''1 234,56'') (Fl 0) \<noteq> round64 (123456 / 100)"
  by (simp add: to_float_examples round64_eval)

text \<open>
  The theorem at concrete cells: a text without a digit gives the default 7; in
  \<open>abc 12,5 kg\<close> the token follows a blank and has a fraction, in \<open>x-3 EUR\<close> it has a
  sign and none; numeric cells pass, and an integer of 54 bits is rounded.
\<close>

theorem to_float_lenient_witness:
  "to_float (CStr ''n/a'') (Fl 7) = Fl 7 \<and>
   token_start ''abc '' [] \<and> digits_end '' kg'' \<and>
   to_float (CStr ''abc 12,5 kg'') (Fl 7) = Fl 12.5 \<and>
   token_start ''x'' ''-'' \<and> no_fraction '' EUR'' \<and>
   to_float (CStr ''x-3 EUR'') (Fl 7) = Fl (- 3) \<and>
   to_float (CInt 42) NaN = Fl 42 \<and>
   to_float (CInt 9007199254740993) NaN = Fl 9007199254740992 \<and>
   to_float (CFloat (Fl 2.5)) (Fl 0) = Fl 2.5 \<and>
   to_float (CFloat PInf) (Fl 0) = PInf \<and>
   (\<exists>x. to_float_try (CStr ''1 234,56'') (Fl 0) = Inr x)"
proof -
  note th = to_float_lenient[of "Fl 0"]
  note c_int = th[THEN conjunct2, THEN conjunct1, rule_format]
  note c_float = th[THEN conjunct2, THEN conjunct2, THEN conjunct1, rule_format]
  note c_nodigit = th[THEN conjunct2, THEN conjunct2, THEN conjunct2, THEN conjunct2,
      THEN conjunct1, rule_format]
  note c_tok = th[THEN conjunct2, THEN conjunct2, THEN conjunct2, THEN conjunct2,
      THEN conjunct2, THEN conjunct2, THEN conjunct1, rule_format]
  note c_frac = th[THEN conjunct2, THEN conjunct2, THEN conjunct2, THEN conjunct2,
      THEN conjunct2, THEN conjunct2, THEN conjunct2, THEN conjunct1, rule_format]
  have a: "to_float (CStr ''n/a'') (Fl 7) = Fl 7" by (rule c_nodigit) (auto simp: is_digit_def)
  have ts1: "token_start ''abc '' []" by (simp add: token_start_def is_digit_def is_sign_def)
  have de: "digits_end '' kg''" by (simp add: digits_end_def is_digit_def)
  have h1: "token_start ''abc '' [] \<and> ''12'' \<noteq> [] \<and> list_all is_digit ''12'' \<and>
      is_sep CHR '','' \<and> ''5'' \<noteq> [] \<and> list_all is_digit ''5'' \<and> digits_end '' kg''"
    using ts1 de by (simp add: is_digit_def is_sep_def)
  have "to_float (CStr (''abc '' @ [] @ ''12'' @ CHR '','' # ''5'' @ '' kg'')) (Fl 7) =
        round64 (token_sign [] *
          (of_nat (nat_of_digits ''12'') + of_nat (nat_of_digits ''5'') / 10 ^ length ''5''))"
    by (rule c_frac[OF h1])
  then have b: "to_float (CStr ''abc 12,5 kg'') (Fl 7) = Fl 12.5"
    by (simp add: token_sign_def nat_of_digits_def digit_val_def round64_eval)
  have ts2: "token_start ''x'' ''-''" by (simp add: token_start_def is_digit_def)
  have nf: "no_fraction '' EUR''" by (simp add: no_fraction_def is_digit_def is_sep_def)
  have h2: "token_start ''x'' ''-'' \<and> ''3'' \<noteq> [] \<and> list_all is_digit ''3'' \<and>
      no_fraction '' EUR''"
    using ts2 nf by (simp add: is_digit_def)
  have "to_float (CStr (''x'' @ ''-'' @ ''3'' @ '' EUR'')) (Fl 7) =
        round64 (token_sign ''-'' * of_nat (nat_of_digits ''3''))"
    by (rule c_tok[OF h2])
  then have c: "to_float (CStr ''x-3 EUR'') (Fl 7) = Fl (- 3)"
    by (simp add: token_sign_def nat_of_digits_def digit_val_def round64_eval)
  have d: "to_float (CInt 42) NaN = Fl 42"
    unfolding c_int by (simp add: round64_eval)
  have d2: "to_float (CInt 9007199254740993) NaN = Fl 9007199254740992"
    unfolding c_int by (simp add: round64_eval)
  have e: "to_float (CFloat (Fl 2.5)) (Fl 0) = Fl 2.5" by (rule c_float) simp
  have e2: "to_float (CFloat PInf) (Fl 0) = PInf" by (rule c_float) simp
  obtain x where "to_float_try (CStr ''1 234,56'') (Fl 0) = Inr x"
    using th[THEN conjunct1, rule_format, of "CStr ''1 234,56''" "Fl 0"] by blast
  then have f: "\<exists>x. to_float_try (CStr ''1 234,56'') (Fl 0) = Inr x" by (rule exI)
  show ?thesis by (intro conjI a ts1 de b ts2 nf c d d2 e e2 f)
qed

section \<open>The offer and its exceptions\<close>

text \<open>
  The fields are always computed: the tier resolution finds a column for every table,
  and the coercions swallow their exceptions.
\<close>

lemma select_tier_mem: "select_tier qs rq acc = Some t \<Longrightarrow> acc = Some t \<or> t \<in> set qs"
  by (induction qs arbitrary: acc) (auto split: if_splits)

lemma pick_tier_value_total:
  fixes conv :: "cell \<Rightarrow> 'a::zero"
  shows "\<exists>v. pick_tier_value r tiers q conv = Inr v"
proof (cases "tiers = []")
  case True
  then show ?thesis by (simp add: pick_tier_value_def)
next
  case False
  let ?ks = "sort (dict_keys tiers)"
  have "set ?ks = fst ` set tiers" by (simp add: set_dict_keys)
  then have "set ?ks \<noteq> {}" using False by simp
  then have ne: "?ks \<noteq> []" by (metis list.set(1))
  have "\<exists>t. (case select_tier ?ks q None of Some t \<Rightarrow> Inr t
          | None \<Rightarrow> (case ?ks of [] \<Rightarrow> Inl IndexError | k # _ \<Rightarrow> Inr k)) = Inr t \<and> t \<in> set ?ks"
  proof (cases "select_tier ?ks q None")
    case None
    then show ?thesis using ne by (cases ?ks) auto
  next
    case (Some t)
    then show ?thesis using select_tier_mem[OF Some] by auto
  qed
  then obtain t where t: "(case select_tier ?ks q None of Some t \<Rightarrow> Inr t
          | None \<Rightarrow> (case ?ks of [] \<Rightarrow> Inl IndexError | k # _ \<Rightarrow> Inr k)) = Inr t"
    and tin: "t \<in> set ?ks" by blast
  have "t \<in> fst ` set tiers" using tin by (simp add: set_dict_keys)
  then obtain col where "map_of tiers t = Some col"
    by (metis map_of_eq_None_iff not_Some_eq)
  then show ?thesis using False t by (simp add: pick_tier_value_def bind_err_def)
qed

lemma production_weeks_total: "\<exists>pw. production_weeks r m q = Inr pw"
  unfolding production_weeks_def Let_def
  using pick_tier_value_total[where 'a = int] by (metis (full_types))

lemma prepare_fields_eq:
  "\<exists>pc ac sc pw.
     pick_tier_value r (get_or (tiers_production m) []) q to_float0 = Inr pc \<and>
     pick_tier_value r (get_or (tiers_air_transport m) []) q to_float0 = Inr ac \<and>
     pick_tier_value r (get_or (tiers_sea_transport m) []) q to_float0 = Inr sc \<and>
     production_weeks r m q = Inr pw \<and>
     prepare_fields r m q = Inr \<lparr>
        f_production_unit_cost = pc,
        f_air_transport_unit_cost = ac,
        f_sea_transport_unit_cost = sc,
        f_unit_price_air = fadd pc ac,
        f_unit_price_sea = fadd pc sc,
        f_moq = max 1 (or_one (to_int0 (row_get r (get_or (moq m) []) (CInt 1)))),
        f_lot_size = max 1 (or_one (to_int0 (row_get r (get_or (lot_size m) []) (CInt 1)))),
        f_lead_time_air_days =
          (pw + transport_time_weeks r (get_or (air_transport_time_column m) [])) * 7,
        f_lead_time_sea_days =
          (pw + transport_time_weeks r (get_or (sea_transport_time_column m) [])) * 7 \<rparr>"
proof -
  obtain pc where pc: "pick_tier_value r (get_or (tiers_production m) []) q to_float0 = Inr pc"
    using pick_tier_value_total by blast
  obtain ac where ac: "pick_tier_value r (get_or (tiers_air_transport m) []) q to_float0 = Inr ac"
    using pick_tier_value_total by blast
  obtain sc where sc: "pick_tier_value r (get_or (tiers_sea_transport m) []) q to_float0 = Inr sc"
    using pick_tier_value_total by blast
  obtain pw where pw: "production_weeks r m q = Inr pw"
    using production_weeks_total by blast
  show ?thesis using pc ac sc pw
    by (simp add: prepare_fields_def bind_err_def Let_def)
qed

text \<open>
  The order-by date: the subtraction raises only \<open>OverflowError\<close>, and returns the plain
  difference of the day numbers when that is a date.
\<close>

lemma order_by_cases:
  "bind_err (timedelta l) (date_sub td) = Inl OverflowError \<or>
   bind_err (timedelta l) (date_sub td) = Inr (td - l)"
  by (simp add: timedelta_def date_sub_def bind_err_def)

lemma order_by_in_range:
  assumes "1 \<le> td" "td \<le> 3652059" "1 \<le> td - l" "td - l \<le> 3652059"
  shows "bind_err (timedelta l) (date_sub td) = Inr (td - l)"
  using assms by (simp add: timedelta_def date_sub_def bind_err_def)

lemma float_of_int_cases:
  "float_of_int n = Inl OverflowError \<or> (\<exists>y. float_of_int n = Inr y)"
  by (simp add: float_of_int_def split: pyfloat.split)

lemma apply_pricing_overheads_eq:
  assumes "fdiv (or_zero (handling_percent cfg)) (Fl 100) = Inr p"
  shows "apply_pricing_overheads amount cfg =
     Inr (fmul (fadd amount (or_zero (handling_flat cfg))) (fadd (Fl 1) p))"
  using assms by (simp add: apply_pricing_overheads_def Let_def bind_err_def)

text \<open>
  The offer is the record above when the ordered quantity converts to a float and both
  order-by dates exist, and \<open>OverflowError\<close> is raised otherwise.
\<close>

lemma compute_offer_returns:
  assumes f: "prepare_fields r m q = Inr f"
    and p: "fdiv (or_zero (handling_percent (pricing_of cfg))) (Fl 100) = Inr p"
    and y: "float_of_int (ceil_to_lot (max q (f_moq f)) (f_lot_size f)) = Inr y"
    and a: "bind_err (timedelta (f_lead_time_air_days f)) (date_sub td) =
              Inr (td - f_lead_time_air_days f)"
    and s: "bind_err (timedelta (f_lead_time_sea_days f)) (date_sub td) =
              Inr (td - f_lead_time_sea_days f)"
  shows "compute_offer r q td m cfg =
     Inr (offer_record f q td y (or_zero (handling_flat (pricing_of cfg))) p)"
proof -
  have itf: "\<And>x. int_times_float (ceil_to_lot (max q (f_moq f)) (f_lot_size f)) x =
      Inr (fmul y x)"
    by (simp add: int_times_float_def y bind_err_Inr)
  show ?thesis
    by (simp add: compute_offer_def f Let_def itf a s bind_err_Inr
        apply_pricing_overheads_eq[OF p] offer_record_def)
qed

lemma compute_offer_raises:
  assumes f: "prepare_fields r m q = Inr f"
    and e: "float_of_int (ceil_to_lot (max q (f_moq f)) (f_lot_size f)) = Inl OverflowError \<or>
       bind_err (timedelta (f_lead_time_air_days f)) (date_sub td) = Inl OverflowError \<or>
       bind_err (timedelta (f_lead_time_sea_days f)) (date_sub td) = Inl OverflowError"
  shows "compute_offer r q td m cfg = Inl OverflowError"
proof -
  obtain p where p: "fdiv (or_zero (handling_percent (pricing_of cfg))) (Fl 100) = Inr p"
    using fdiv_100 by blast
  let ?qty = "ceil_to_lot (max q (f_moq f)) (f_lot_size f)"
  show ?thesis
  proof (cases "float_of_int ?qty")
    case (Inl err)
    then have "err = OverflowError" by (rule float_of_int_error)
    then have "\<And>x. int_times_float ?qty x = Inl OverflowError"
      using Inl by (simp add: int_times_float_def bind_err_Inl)
    then show ?thesis by (simp add: compute_offer_def f Let_def bind_err_Inr bind_err_Inl)
  next
    case (Inr y)
    have itf: "\<And>x. int_times_float ?qty x = Inr (fmul y x)"
      by (simp add: int_times_float_def Inr bind_err_Inr)
    have d: "bind_err (timedelta (f_lead_time_air_days f)) (date_sub td) = Inl OverflowError \<or>
       bind_err (timedelta (f_lead_time_sea_days f)) (date_sub td) = Inl OverflowError"
      using e Inr by simp
    show ?thesis
    proof (cases "bind_err (timedelta (f_lead_time_air_days f)) (date_sub td)")
      case (Inl err)
      then have a: "bind_err (timedelta (f_lead_time_air_days f)) (date_sub td) =
          Inl OverflowError"
        using order_by_cases[of "f_lead_time_air_days f" td] by simp
      show ?thesis
        by (simp add: compute_offer_def f Let_def itf a bind_err_Inr bind_err_Inl
            apply_pricing_overheads_eq[OF p])
    next
      case (Inr oa)
      then have s: "bind_err (timedelta (f_lead_time_sea_days f)) (date_sub td) =
          Inl OverflowError" using d by simp
      show ?thesis
        by (simp add: compute_offer_def f Let_def itf Inr s bind_err_Inr bind_err_Inl
            apply_pricing_overheads_eq[OF p])
    qed
  qed
qed

lemma compute_offer_cases:
  assumes f: "prepare_fields r m q = Inr f"
    and p: "fdiv (or_zero (handling_percent (pricing_of cfg))) (Fl 100) = Inr p"
  shows "compute_offer r q td m cfg = Inl OverflowError \<or>
     (\<exists>y. float_of_int (ceil_to_lot (max q (f_moq f)) (f_lot_size f)) = Inr y \<and>
        compute_offer r q td m cfg =
          Inr (offer_record f q td y (or_zero (handling_flat (pricing_of cfg))) p))"
proof -
  let ?qty = "ceil_to_lot (max q (f_moq f)) (f_lot_size f)"
  let ?a = "bind_err (timedelta (f_lead_time_air_days f)) (date_sub td)"
  let ?s = "bind_err (timedelta (f_lead_time_sea_days f)) (date_sub td)"
  show ?thesis
  proof (cases "float_of_int ?qty = Inl OverflowError \<or> ?a = Inl OverflowError \<or>
      ?s = Inl OverflowError")
    case True
    then show ?thesis using compute_offer_raises[OF f] by simp
  next
    case False
    then obtain y where y: "float_of_int ?qty = Inr y"
      using float_of_int_cases[of ?qty] by blast
    have a: "?a = Inr (td - f_lead_time_air_days f)"
      using False order_by_cases[of "f_lead_time_air_days f" td] by simp
    have s: "?s = Inr (td - f_lead_time_sea_days f)"
      using False order_by_cases[of "f_lead_time_sea_days f" td] by simp
    show ?thesis using compute_offer_returns[OF f p y a s] y by simp
  qed
qed

text \<open>
  A sufficient condition in plain numbers: the ordered quantity has at most 53 bits, the
  target is a date and so are the two order-by days.
\<close>

lemma compute_offer_in_range:
  assumes f: "prepare_fields r m q = Inr f"
    and qty: "\<bar>ceil_to_lot (max q (f_moq f)) (f_lot_size f)\<bar> \<le> 2 ^ 53"
    and td: "1 \<le> td" "td \<le> 3652059"
    and a: "1 \<le> td - f_lead_time_air_days f" "td - f_lead_time_air_days f \<le> 3652059"
    and s: "1 \<le> td - f_lead_time_sea_days f" "td - f_lead_time_sea_days f \<le> 3652059"
  shows "\<exists>ofr. compute_offer r q td m cfg = Inr ofr"
proof -
  obtain p where p: "fdiv (or_zero (handling_percent (pricing_of cfg))) (Fl 100) = Inr p"
    using fdiv_100 by blast
  show ?thesis
    using compute_offer_returns[OF f p float_of_int_small[OF qty]
        order_by_in_range[OF td a] order_by_in_range[OF td s]]
    by (rule exI)
qed

lemma ceil_to_lot_props:
  assumes "1 \<le> l"
  shows "l dvd ceil_to_lot x l \<and> x \<le> ceil_to_lot x l \<and>
         (\<forall>k. l dvd k \<and> x \<le> k \<longrightarrow> ceil_to_lot x l \<le> k)"
proof (cases "l = 1")
  case True
  then show ?thesis by (simp add: ceil_to_lot_def)
next
  case False
  then have l: "1 < l" using assms by simp
  let ?n = "(x + l - 1) div l"
  have c: "ceil_to_lot x l = ?n * l" using l by (simp add: ceil_to_lot_def)
  have "(x + l - 1) mod l \<le> l - 1" using l pos_mod_bound[of l "x + l - 1"] by simp
  moreover have "?n * l = (x + l - 1) - (x + l - 1) mod l"
    by (simp add: minus_mod_eq_div_mult)
  ultimately have ge: "x \<le> ?n * l" by linarith
  have least: "?n * l \<le> k" if k: "l dvd k" "x \<le> k" for k
  proof -
    obtain j where j: "k = l * j" using k(1) by (auto simp: dvd_def)
    have lt: "x + l - 1 < l * (j + 1)" using k(2) j l by (simp add: algebra_simps)
    have "?n \<le> j"
    proof (rule ccontr)
      assume "\<not> ?n \<le> j"
      then have "j + 1 \<le> ?n" by simp
      then have "l * (j + 1) \<le> l * ?n" using l by (simp add: mult_left_mono)
      moreover have "l * ?n + (x + l - 1) mod l = x + l - 1" by simp
      moreover have "0 \<le> (x + l - 1) mod l" using l by simp
      ultimately show False using lt by linarith
    qed
    then have "?n * l \<le> j * l" using l by (simp add: mult_right_mono)
    then show ?thesis using j by (simp add: mult.commute)
  qed
  show ?thesis using c ge least by simp
qed

lemma order_by_range:
  "bind_err (timedelta l) (date_sub td) = Inr d \<Longrightarrow> d = td - l \<and> 1 \<le> d \<and> d \<le> 3652059"
  by (auto simp: timedelta_def date_sub_def bind_err_def split: if_splits)

lemma order_by_out_of_range:
  "\<not> (1 \<le> td - l \<and> td - l \<le> 3652059) \<Longrightarrow>
   bind_err (timedelta l) (date_sub td) = Inl OverflowError"
  by (auto simp: timedelta_def date_sub_def bind_err_def)

lemma offer_in_range_returns:
  assumes "prepare_fields r m q = Inr f" "offer_in_range f q td"
  shows "\<exists>ofr. compute_offer r q td m cfg = Inr ofr"
  using assms(2) unfolding offer_in_range_def
  by (intro compute_offer_in_range[OF assms(1)]) simp_all

text \<open>What an offer that is returned tells about the run.\<close>

lemma compute_offer_Inr:
  assumes f: "prepare_fields r m q = Inr f"
    and p: "fdiv (or_zero (handling_percent (pricing_of cfg))) (Fl 100) = Inr p"
    and o: "compute_offer r q td m cfg = Inr ofr"
  shows "\<exists>y. float_of_int (ceil_to_lot (max q (f_moq f)) (f_lot_size f)) = Inr y \<and>
     ofr = offer_record f q td y (or_zero (handling_flat (pricing_of cfg))) p \<and>
     1 \<le> td - f_lead_time_air_days f \<and> td - f_lead_time_air_days f \<le> 3652059 \<and>
     1 \<le> td - f_lead_time_sea_days f \<and> td - f_lead_time_sea_days f \<le> 3652059"
proof -
  obtain y where y: "float_of_int (ceil_to_lot (max q (f_moq f)) (f_lot_size f)) = Inr y"
    and e: "compute_offer r q td m cfg =
          Inr (offer_record f q td y (or_zero (handling_flat (pricing_of cfg))) p)"
    using compute_offer_cases[OF f p, of td] o by auto
  have ofr: "ofr = offer_record f q td y (or_zero (handling_flat (pricing_of cfg))) p"
    using e o by simp
  have a: "1 \<le> td - f_lead_time_air_days f \<and> td - f_lead_time_air_days f \<le> 3652059"
  proof (rule ccontr)
    assume "\<not> ?thesis"
    then have "bind_err (timedelta (f_lead_time_air_days f)) (date_sub td) = Inl OverflowError"
      by (rule order_by_out_of_range)
    then have "compute_offer r q td m cfg = Inl OverflowError"
      using compute_offer_raises[OF f] by simp
    then show False using o by simp
  qed
  have s: "1 \<le> td - f_lead_time_sea_days f \<and> td - f_lead_time_sea_days f \<le> 3652059"
  proof (rule ccontr)
    assume "\<not> ?thesis"
    then have "bind_err (timedelta (f_lead_time_sea_days f)) (date_sub td) = Inl OverflowError"
      by (rule order_by_out_of_range)
    then have "compute_offer r q td m cfg = Inl OverflowError"
      using compute_offer_raises[OF f] by simp
    then show False using o by simp
  qed
  show ?thesis using y ofr a s by simp
qed

lemma compute_offer_total:
  assumes f: "prepare_fields r m q = Inr f"
  shows "compute_offer r q td m cfg = Inl OverflowError \<or>
     (\<exists>ofr. compute_offer r q td m cfg = Inr ofr)"
proof -
  obtain p where p: "fdiv (or_zero (handling_percent (pricing_of cfg))) (Fl 100) = Inr p"
    using fdiv_100 by blast
  show ?thesis using compute_offer_cases[OF f p, of td] by auto
qed

section \<open>The example offers\<close>

text \<open>The example row, with 30 and with 150 requested, on day 739000.\<close>

lemma to_int0_examples:
  "to_int0 (CStr ''2'') = 2" "to_int0 (CStr ''1'') = 1" "to_int0 (CStr ''4'') = 4"
  "to_int0 (CStr ''100'') = 100" "to_int0 (CStr ''50'') = 50"
  by (simp_all add: to_int0_def to_int_def to_int_try_def text_eval bind_err_def round64_eval)

lemma to_float0_examples:
  "to_float0 (CStr ''0.50'') = Fl 0.5"
  "to_float0 (CStr ''0.20'') = Fl (3602879701896397 / 2 ^ 54)"
  by (simp_all add: to_float0_def to_float_def to_float_try_def text_eval round64_eval)

lemma pick_single:
  "pick_tier_value r [(k, col)] q conv = Inr (conv (row_get r col (CInt 0)))"
  by (simp add: pick_tier_value_def dict_keys_def bind_err_def)

lemma example_fields:
  assumes "q < 200"
  shows "prepare_fields example_offer_row example_mapping q = Inr \<lparr>
        f_production_unit_cost = Fl 5.5,
        f_air_transport_unit_cost = Fl 0.5,
        f_sea_transport_unit_cost = Fl (3602879701896397 / 2 ^ 54),
        f_unit_price_air = Fl 6,
        f_unit_price_sea = Fl (6417629469002957 / 2 ^ 50),
        f_moq = 100,
        f_lot_size = 50,
        f_lead_time_air_days = 21,
        f_lead_time_sea_days = 42 \<rparr>"
proof -
  have p: "pick_tier_value example_offer_row example_tiers q to_float0 = Inr (Fl 5.5)"
    using assms
    by (simp add: pick_tier_value_def example_tiers_def example_offer_row_def dict_keys_def
      bind_err_def row_get_def to_float0_example)
  have a: "pick_tier_value example_offer_row [(200, ''CTA pour 200'')] q to_float0 = Inr (Fl 0.5)"
    by (simp add: pick_single row_get_def example_offer_row_def to_float0_examples)
  have b: "pick_tier_value example_offer_row [(200, ''CTB pour 200'')] q to_float0 =
      Inr (Fl (3602879701896397 / 2 ^ 54))"
    by (simp add: pick_single row_get_def example_offer_row_def to_float0_examples)
  have w: "production_weeks example_offer_row example_mapping q = Inr 2"
    by (simp add: production_weeks_def example_mapping_def get_or_def pick_single row_get_def
      example_offer_row_def to_int0_examples)
  have ta: "transport_time_weeks example_offer_row ''Delais de transport Avion'' = 1"
    by (simp add: transport_time_weeks_def row_get_def example_offer_row_def to_int0_examples)
  have tb: "transport_time_weeks example_offer_row ''Delais de transport Bateau'' = 4"
    by (simp add: transport_time_weeks_def row_get_def example_offer_row_def to_int0_examples)
  have mq: "to_int0 (row_get example_offer_row ''MOQ'' (CInt 1)) = 100"
    by (simp add: row_get_def example_offer_row_def to_int0_examples)
  have lt: "to_int0 (row_get example_offer_row ''Lot'' (CInt 1)) = 50"
    by (simp add: row_get_def example_offer_row_def to_int0_examples)
  have m: "tiers_production example_mapping = Some example_tiers"
    "tiers_air_transport example_mapping = Some [(200, ''CTA pour 200'')]"
    "tiers_sea_transport example_mapping = Some [(200, ''CTB pour 200'')]"
    "moq example_mapping = Some ''MOQ''" "lot_size example_mapping = Some ''Lot''"
    "air_transport_time_column example_mapping = Some ''Delais de transport Avion''"
    "sea_transport_time_column example_mapping = Some ''Delais de transport Bateau''"
    by (simp_all add: example_mapping_def)
  show ?thesis
    by (simp add: prepare_fields_def m get_or_def p a b w ta tb mq lt bind_err_def or_one_def
        round64_eval)
qed

lemma example_pricing:
  "fdiv (or_zero (handling_percent (pricing_of example_config))) (Fl 100) =
     Inr (Fl (3602879701896397 / 2 ^ 55))"
  "or_zero (handling_flat (pricing_of example_config)) = Fl 25"
  by (simp_all add: pricing_of_def example_config_def get_or_def or_zero_def round64_eval)

text \<open>The fields of the example row, as a record.\<close>

lemma example_offer:
  "compute_offer example_offer_row 30 739000 example_mapping example_config = Inr 
     \<lparr>requested_qty = 30, qty_ordered = 100,
        air =
          \<lparr>unit_price = Fl 6, production_unit_cost = Fl 5.5,
             transport_unit_cost = Fl 0.5,
             production_total_pre_overhead = Fl 550,
             transport_total_pre_overhead = Fl 50, lead_time_days = 21,
             total_cost = Fl 687.5, order_by = 738979\<rparr>,
        sea =
          \<lparr>unit_price = Fl (6417629469002957 / 2 ^ 50), production_unit_cost = Fl 5.5,
             transport_unit_cost = Fl (3602879701896397 / 2 ^ 54),
             production_total_pre_overhead = Fl 550,
             transport_total_pre_overhead = Fl 20, lead_time_days = 42,
             total_cost = Fl 654.5, order_by = 738958\<rparr>\<rparr>"
proof -
  define f where "f = \<lparr>
        f_production_unit_cost = Fl 5.5,
        f_air_transport_unit_cost = Fl 0.5,
        f_sea_transport_unit_cost = Fl (3602879701896397 / 2 ^ 54),
        f_unit_price_air = Fl 6,
        f_unit_price_sea = Fl (6417629469002957 / 2 ^ 50),
        f_moq = 100,
        f_lot_size = 50,
        f_lead_time_air_days = 21,
        f_lead_time_sea_days = 42 \<rparr>"
  have pf: "prepare_fields example_offer_row example_mapping 30 = Inr f"
    unfolding f_def by (rule example_fields) simp
  have y: "float_of_int (ceil_to_lot (max 30 (f_moq f)) (f_lot_size f)) = Inr (Fl 100)"
    by (simp add: f_def ceil_to_lot_def float_of_int_small)
  have a: "bind_err (timedelta (f_lead_time_air_days f)) (date_sub 739000) =
      Inr (739000 - f_lead_time_air_days f)"
    by (rule order_by_in_range) (simp_all add: f_def)
  have s: "bind_err (timedelta (f_lead_time_sea_days f)) (date_sub 739000) =
      Inr (739000 - f_lead_time_sea_days f)"
    by (rule order_by_in_range) (simp_all add: f_def)
  show ?thesis
    unfolding compute_offer_returns[OF pf example_pricing(1) y a s]
    by (simp add: f_def offer_record_def example_pricing(2) ceil_to_lot_def round64_eval)
qed

text \<open>
  With 150 requested the air total is \<open>(150 * 6.0 + 25) * (1 + 10 / 100)\<close>, which is the
  float 1017.5000000000001: the sum \<open>1 + 0.1\<close> and the product are both rounded.
\<close>

lemma example_offer_150:
  "compute_offer example_offer_row 150 739000 example_mapping example_config = Inr 
     \<lparr>requested_qty = 150, qty_ordered = 150,
        air =
          \<lparr>unit_price = Fl 6, production_unit_cost = Fl 5.5,
             transport_unit_cost = Fl 0.5,
             production_total_pre_overhead = Fl 825,
             transport_total_pre_overhead = Fl 75, lead_time_days = 21,
             total_cost = Fl (8950024650096641 / 2 ^ 43), order_by = 738979\<rparr>,
        sea =
          \<lparr>unit_price = Fl (6417629469002957 / 2 ^ 50), production_unit_cost = Fl 5.5,
             transport_unit_cost = Fl (3602879701896397 / 2 ^ 54),
             production_total_pre_overhead = Fl 825,
             transport_total_pre_overhead = Fl 30, lead_time_days = 42,
             total_cost = Fl (8514618045497345 / 2 ^ 43), order_by = 738958\<rparr>\<rparr>"
proof -
  define f where "f = \<lparr>
        f_production_unit_cost = Fl 5.5,
        f_air_transport_unit_cost = Fl 0.5,
        f_sea_transport_unit_cost = Fl (3602879701896397 / 2 ^ 54),
        f_unit_price_air = Fl 6,
        f_unit_price_sea = Fl (6417629469002957 / 2 ^ 50),
        f_moq = 100,
        f_lot_size = 50,
        f_lead_time_air_days = 21,
        f_lead_time_sea_days = 42 \<rparr>"
  have pf: "prepare_fields example_offer_row example_mapping 150 = Inr f"
    unfolding f_def by (rule example_fields) simp
  have y: "float_of_int (ceil_to_lot (max 150 (f_moq f)) (f_lot_size f)) = Inr (Fl 150)"
    by (simp add: f_def ceil_to_lot_def float_of_int_small)
  have a: "bind_err (timedelta (f_lead_time_air_days f)) (date_sub 739000) =
      Inr (739000 - f_lead_time_air_days f)"
    by (rule order_by_in_range) (simp_all add: f_def)
  have s: "bind_err (timedelta (f_lead_time_sea_days f)) (date_sub 739000) =
      Inr (739000 - f_lead_time_sea_days f)"
    by (rule order_by_in_range) (simp_all add: f_def)
  show ?thesis
    unfolding compute_offer_returns[OF pf example_pricing(1) y a s]
    by (simp add: f_def offer_record_def example_pricing(2) ceil_to_lot_def round64_eval)
qed

text \<open>
  With a production time of 200000 weeks the order-by day would lie before day 1, and
  the subtraction raises.
\<close>

lemma example_overflow:
  "compute_offer (example_offer_row(''Temps de prod pour 200'' \<mapsto> CStr ''200000'')) 30 739000
     example_mapping example_config = Inl OverflowError"
proof -
  let ?r = "example_offer_row(''Temps de prod pour 200'' \<mapsto> CStr ''200000'')"
  have w: "production_weeks ?r example_mapping 30 = Inr 200000"
    by (simp add: production_weeks_def example_mapping_def get_or_def pick_single row_get_def
        to_int0_def to_int_def to_int_try_def text_eval bind_err_def round64_eval)
  have t: "transport_time_weeks ?r (get_or (air_transport_time_column example_mapping) []) = 1"
    by (simp add: transport_time_weeks_def example_mapping_def get_or_def row_get_def
        example_offer_row_def to_int0_examples)
  obtain f where f: "prepare_fields ?r example_mapping 30 = Inr f"
    and l: "f_lead_time_air_days f = (200000 + 1) * 7"
    using prepare_fields_eq[of ?r example_mapping 30] by (auto simp: w t)
  have "bind_err (timedelta (f_lead_time_air_days f)) (date_sub 739000) = Inl OverflowError"
    by (rule order_by_out_of_range) (simp add: l)
  then show ?thesis using compute_offer_raises[OF f] by simp
qed

section \<open>Ordered quantity\<close>

lemma max_or_one: "max 1 (or_one x) = max 1 x"
  by (simp add: or_one_def)

lemma prepare_fields_clamps:
  assumes "prepare_fields r m q = Inr f"
  shows "f_moq f = max 1 (to_int0 (row_get r (get_or (moq m) []) (CInt 1)))"
    and "f_lot_size f = max 1 (to_int0 (row_get r (get_or (lot_size m) []) (CInt 1)))"
    and "1 \<le> f_moq f" and "1 \<le> f_lot_size f"
proof -
  obtain pc ac sc pw where "prepare_fields r m q = Inr \<lparr>
        f_production_unit_cost = pc,
        f_air_transport_unit_cost = ac,
        f_sea_transport_unit_cost = sc,
        f_unit_price_air = fadd pc ac,
        f_unit_price_sea = fadd pc sc,
        f_moq = max 1 (or_one (to_int0 (row_get r (get_or (moq m) []) (CInt 1)))),
        f_lot_size = max 1 (or_one (to_int0 (row_get r (get_or (lot_size m) []) (CInt 1)))),
        f_lead_time_air_days =
          (pw + transport_time_weeks r (get_or (air_transport_time_column m) [])) * 7,
        f_lead_time_sea_days =
          (pw + transport_time_weeks r (get_or (sea_transport_time_column m) [])) * 7 \<rparr>"
    using prepare_fields_eq[of r m q] by (elim exE conjE) (rule that)
  then have f: "f = \<lparr>
        f_production_unit_cost = pc,
        f_air_transport_unit_cost = ac,
        f_sea_transport_unit_cost = sc,
        f_unit_price_air = fadd pc ac,
        f_unit_price_sea = fadd pc sc,
        f_moq = max 1 (or_one (to_int0 (row_get r (get_or (moq m) []) (CInt 1)))),
        f_lot_size = max 1 (or_one (to_int0 (row_get r (get_or (lot_size m) []) (CInt 1)))),
        f_lead_time_air_days =
          (pw + transport_time_weeks r (get_or (air_transport_time_column m) [])) * 7,
        f_lead_time_sea_days =
          (pw + transport_time_weeks r (get_or (sea_transport_time_column m) [])) * 7 \<rparr>"
    using assms by simp
  show "f_moq f = max 1 (to_int0 (row_get r (get_or (moq m) []) (CInt 1)))"
    by (simp add: f max_or_one)
  then show "1 \<le> f_moq f" by simp
  show "f_lot_size f = max 1 (to_int0 (row_get r (get_or (lot_size m) []) (CInt 1)))"
    by (simp add: f max_or_one)
  then show "1 \<le> f_lot_size f" by simp
qed

lemma prepare_fields_total: "\<exists>f. prepare_fields r m q = Inr f"
  using prepare_fields_eq[of r m q] by (elim exE conjE) (rule exI)

text \<open>The ordered quantity of an offer that is returned.\<close>

lemma compute_offer_qty:
  assumes f: "prepare_fields r m q = Inr f" and o: "compute_offer r q td m cfg = Inr ofr"
  shows "qty_ordered ofr = ceil_to_lot (max q (f_moq f)) (f_lot_size f)"
proof -
  obtain p where p: "fdiv (or_zero (handling_percent (pricing_of cfg))) (Fl 100) = Inr p"
    using fdiv_100 by blast
  obtain y where "ofr = offer_record f q td y (or_zero (handling_flat (pricing_of cfg))) p"
    using compute_offer_Inr[OF f p o] by (elim exE conjE) (rule that)
  then show ?thesis by (simp add: offer_record_def)
qed

text \<open>
  C2. For every row, mapping, requested quantity, date and configuration the MOQ and
  the lot size of the row are at least 1, and \<open>compute_offer\<close> either raises
  \<open>OverflowError\<close> or returns an offer; it returns one when the ordered quantity has at most
  53 bits and the order-by days are dates. The ordered quantity of every offer it returns
  is \<open>ceil_to_lot (max q MOQ) lot\<close>: the MOQ is applied first, then the rounding. That
  quantity is a multiple of the lot size, is at least \<open>max q MOQ\<close>, and is the smallest
  such multiple. A lot size of 1 or less leaves the quantity unchanged, and the three
  facts hold for every MOQ and every lot size from 1 on.
\<close>

theorem compute_offer_qty_ordered:
  "\<exists>f. prepare_fields r m q = Inr f \<and> 1 \<le> f_moq f \<and> 1 \<le> f_lot_size f \<and>
     (compute_offer r q td m cfg = Inl OverflowError \<or>
      (\<exists>ofr. compute_offer r q td m cfg = Inr ofr)) \<and>
     (offer_in_range f q td \<longrightarrow> (\<exists>ofr. compute_offer r q td m cfg = Inr ofr)) \<and>
     (\<forall>ofr. compute_offer r q td m cfg = Inr ofr \<longrightarrow>
        qty_ordered ofr = ceil_to_lot (max q (f_moq f)) (f_lot_size f) \<and>
        f_lot_size f dvd qty_ordered ofr \<and> max q (f_moq f) \<le> qty_ordered ofr \<and>
        (\<forall>k. f_lot_size f dvd k \<and> max q (f_moq f) \<le> k \<longrightarrow> qty_ordered ofr \<le> k)) \<and>
     (\<forall>x l. l \<le> 1 \<longrightarrow> ceil_to_lot x l = x) \<and>
     (\<forall>mq l. 1 \<le> mq \<and> 1 \<le> l \<longrightarrow>
        l dvd ceil_to_lot (max q mq) l \<and> max q mq \<le> ceil_to_lot (max q mq) l \<and>
        (\<forall>k. l dvd k \<and> max q mq \<le> k \<longrightarrow> ceil_to_lot (max q mq) l \<le> k))"
proof -
  obtain f where f: "prepare_fields r m q = Inr f" using prepare_fields_total by blast
  note ge = prepare_fields_clamps(3,4)[OF f]
  have tot: "compute_offer r q td m cfg = Inl OverflowError \<or>
      (\<exists>ofr. compute_offer r q td m cfg = Inr ofr)"
    by (rule compute_offer_total[OF f])
  have rng: "offer_in_range f q td \<longrightarrow> (\<exists>ofr. compute_offer r q td m cfg = Inr ofr)"
    using offer_in_range_returns[OF f] by blast
  have qo: "\<forall>ofr. compute_offer r q td m cfg = Inr ofr \<longrightarrow>
        qty_ordered ofr = ceil_to_lot (max q (f_moq f)) (f_lot_size f) \<and>
        f_lot_size f dvd qty_ordered ofr \<and> max q (f_moq f) \<le> qty_ordered ofr \<and>
        (\<forall>k. f_lot_size f dvd k \<and> max q (f_moq f) \<le> k \<longrightarrow> qty_ordered ofr \<le> k)"
  proof (intro allI impI)
    fix ofr assume o: "compute_offer r q td m cfg = Inr ofr"
    have e: "qty_ordered ofr = ceil_to_lot (max q (f_moq f)) (f_lot_size f)"
      by (rule compute_offer_qty[OF f o])
    show "qty_ordered ofr = ceil_to_lot (max q (f_moq f)) (f_lot_size f) \<and>
        f_lot_size f dvd qty_ordered ofr \<and> max q (f_moq f) \<le> qty_ordered ofr \<and>
        (\<forall>k. f_lot_size f dvd k \<and> max q (f_moq f) \<le> k \<longrightarrow> qty_ordered ofr \<le> k)"
      unfolding e using ceil_to_lot_props[OF ge(2), of "max q (f_moq f)"] by simp
  qed
  have noop: "\<forall>x l. l \<le> 1 \<longrightarrow> ceil_to_lot x l = x" by (simp add: ceil_to_lot_def)
  have gen: "\<forall>mq l. 1 \<le> mq \<and> 1 \<le> l \<longrightarrow>
        l dvd ceil_to_lot (max q mq) l \<and> max q mq \<le> ceil_to_lot (max q mq) l \<and>
        (\<forall>k. l dvd k \<and> max q mq \<le> k \<longrightarrow> ceil_to_lot (max q mq) l \<le> k)"
    using ceil_to_lot_props by blast
  show ?thesis
    by (rule exI[of _ f]) (intro conjI f ge tot rng qo noop gen)
qed

text \<open>
  The example row: 30 requested, an MOQ of 100 and lots of 50 give 100 ordered; 101
  with an MOQ of 1 and lots of 50 would give 150.
\<close>

theorem compute_offer_qty_ordered_witness:
  "\<exists>f ofr. prepare_fields example_offer_row example_mapping 30 = Inr f \<and>
     offer_in_range f 30 739000 \<and>
     compute_offer example_offer_row 30 739000 example_mapping example_config = Inr ofr \<and>
     f_moq f = 100 \<and> f_lot_size f = 50 \<and> qty_ordered ofr = 100 \<and>
     f_lot_size f dvd qty_ordered ofr \<and> max 30 (f_moq f) \<le> qty_ordered ofr \<and>
     ceil_to_lot (max 101 1) 50 = 150 \<and> ceil_to_lot 7 1 = 7"
proof -
  obtain f where f: "prepare_fields example_offer_row example_mapping 30 = Inr f"
    and rng: "offer_in_range f 30 739000 \<longrightarrow>
       (\<exists>ofr. compute_offer example_offer_row 30 739000 example_mapping example_config = Inr ofr)"
    and qo: "\<forall>ofr. compute_offer example_offer_row 30 739000 example_mapping example_config =
          Inr ofr \<longrightarrow>
        qty_ordered ofr = ceil_to_lot (max 30 (f_moq f)) (f_lot_size f) \<and>
        f_lot_size f dvd qty_ordered ofr \<and> max 30 (f_moq f) \<le> qty_ordered ofr \<and>
        (\<forall>k. f_lot_size f dvd k \<and> max 30 (f_moq f) \<le> k \<longrightarrow> qty_ordered ofr \<le> k)"
    and noop: "\<forall>x l. l \<le> (1::int) \<longrightarrow> ceil_to_lot x l = x"
    using compute_offer_qty_ordered[of example_offer_row example_mapping 30 739000
        example_config]
    by (elim exE conjE) (rule that)
  have fv: "f_moq f = 100" "f_lot_size f = 50" "f_lead_time_air_days f = 21"
    "f_lead_time_sea_days f = 42"
    using f example_fields[of 30] by auto
  have ir: "offer_in_range f 30 739000"
    by (simp add: offer_in_range_def fv ceil_to_lot_def)
  obtain ofr where o: "compute_offer example_offer_row 30 739000 example_mapping example_config =
      Inr ofr" using rng ir by blast
  have q: "qty_ordered ofr = ceil_to_lot (max 30 (f_moq f)) (f_lot_size f)"
    "f_lot_size f dvd qty_ordered ofr" "max 30 (f_moq f) \<le> qty_ordered ofr"
    using qo o by blast+
  have q100: "qty_ordered ofr = 100" using q(1) by (simp add: fv ceil_to_lot_def)
  have c1: "ceil_to_lot (max 101 1) 50 = 150" by (simp add: ceil_to_lot_def)
  have c2: "ceil_to_lot 7 1 = 7" using noop by simp
  show ?thesis
    apply (rule exI[of _ f])
    apply (rule exI[of _ ofr])
    by (intro conjI f ir o fv(1,2) q100 q(2,3) c1 c2)
qed

section \<open>Costs\<close>

text \<open>The fields with the resolved tier values.\<close>

lemma prepare_fields_costs:
  assumes f: "prepare_fields r m q = Inr f"
  shows "\<exists>pw.
     pick_tier_value r (get_or (tiers_production m) []) q to_float0 =
       Inr (f_production_unit_cost f) \<and>
     pick_tier_value r (get_or (tiers_air_transport m) []) q to_float0 =
       Inr (f_air_transport_unit_cost f) \<and>
     pick_tier_value r (get_or (tiers_sea_transport m) []) q to_float0 =
       Inr (f_sea_transport_unit_cost f) \<and>
     f_unit_price_air f = fadd (f_production_unit_cost f) (f_air_transport_unit_cost f) \<and>
     f_unit_price_sea f = fadd (f_production_unit_cost f) (f_sea_transport_unit_cost f) \<and>
     production_weeks r m q = Inr pw \<and>
     f_lead_time_air_days f =
       (pw + transport_time_weeks r (get_or (air_transport_time_column m) [])) * 7 \<and>
     f_lead_time_sea_days f =
       (pw + transport_time_weeks r (get_or (sea_transport_time_column m) [])) * 7"
proof -
  obtain pc ac sc pw where
    pc: "pick_tier_value r (get_or (tiers_production m) []) q to_float0 = Inr pc" and
    ac: "pick_tier_value r (get_or (tiers_air_transport m) []) q to_float0 = Inr ac" and
    sc: "pick_tier_value r (get_or (tiers_sea_transport m) []) q to_float0 = Inr sc" and
    pw: "production_weeks r m q = Inr pw" and
    e: "prepare_fields r m q = Inr \<lparr>
        f_production_unit_cost = pc,
        f_air_transport_unit_cost = ac,
        f_sea_transport_unit_cost = sc,
        f_unit_price_air = fadd pc ac,
        f_unit_price_sea = fadd pc sc,
        f_moq = max 1 (or_one (to_int0 (row_get r (get_or (moq m) []) (CInt 1)))),
        f_lot_size = max 1 (or_one (to_int0 (row_get r (get_or (lot_size m) []) (CInt 1)))),
        f_lead_time_air_days =
          (pw + transport_time_weeks r (get_or (air_transport_time_column m) [])) * 7,
        f_lead_time_sea_days =
          (pw + transport_time_weeks r (get_or (sea_transport_time_column m) [])) * 7 \<rparr>"
    using prepare_fields_eq[of r m q] by (elim exE conjE) (rule that)
  have fe: "f = \<lparr>
        f_production_unit_cost = pc,
        f_air_transport_unit_cost = ac,
        f_sea_transport_unit_cost = sc,
        f_unit_price_air = fadd pc ac,
        f_unit_price_sea = fadd pc sc,
        f_moq = max 1 (or_one (to_int0 (row_get r (get_or (moq m) []) (CInt 1)))),
        f_lot_size = max 1 (or_one (to_int0 (row_get r (get_or (lot_size m) []) (CInt 1)))),
        f_lead_time_air_days =
          (pw + transport_time_weeks r (get_or (air_transport_time_column m) [])) * 7,
        f_lead_time_sea_days =
          (pw + transport_time_weeks r (get_or (sea_transport_time_column m) [])) * 7 \<rparr>"
    using f e by simp
  show ?thesis
    by (rule exI[of _ pw]) (simp add: fe pc ac sc pw)
qed

text \<open>
  C3. For every row, mapping, requested quantity, date and configuration the three tier
  values are resolved, and \<open>compute_offer\<close> either raises \<open>OverflowError\<close> or returns an
  offer; it returns one when the ordered quantity has at most 53 bits and the order-by
  days are dates. In every offer it returns, in each mode, the production and transport
  unit costs are the resolved tier values, the unit price is their float sum, and the
  total cost is \<open>(qty_ordered * unit_price + handling_flat) * (1 + handling_percent / 100)\<close>
  in float arithmetic, each operation rounded, with the ordered quantity converted to a
  float, and with the same flat amount and percentage in both modes (each 0 when not
  configured).
\<close>

theorem compute_offer_costs:
  "\<exists>f pc ac sc p.
     prepare_fields r m q = Inr f \<and>
     pick_tier_value r (get_or (tiers_production m) []) q to_float0 = Inr pc \<and>
     pick_tier_value r (get_or (tiers_air_transport m) []) q to_float0 = Inr ac \<and>
     pick_tier_value r (get_or (tiers_sea_transport m) []) q to_float0 = Inr sc \<and>
     fdiv (or_zero (handling_percent (pricing_of cfg))) (Fl 100) = Inr p \<and>
     (compute_offer r q td m cfg = Inl OverflowError \<or>
      (\<exists>ofr. compute_offer r q td m cfg = Inr ofr)) \<and>
     (offer_in_range f q td \<longrightarrow> (\<exists>ofr. compute_offer r q td m cfg = Inr ofr)) \<and>
     (\<forall>ofr. compute_offer r q td m cfg = Inr ofr \<longrightarrow>
        production_unit_cost (air ofr) = pc \<and> production_unit_cost (sea ofr) = pc \<and>
        transport_unit_cost (air ofr) = ac \<and> transport_unit_cost (sea ofr) = sc \<and>
        unit_price (air ofr) = fadd pc ac \<and> unit_price (sea ofr) = fadd pc sc \<and>
        (\<exists>y. float_of_int (qty_ordered ofr) = Inr y \<and>
           total_cost (air ofr) =
             fmul (fadd (fmul y (unit_price (air ofr)))
                     (or_zero (handling_flat (pricing_of cfg))))
               (fadd (Fl 1) p) \<and>
           total_cost (sea ofr) =
             fmul (fadd (fmul y (unit_price (sea ofr)))
                     (or_zero (handling_flat (pricing_of cfg))))
               (fadd (Fl 1) p)))"
proof -
  obtain f where f: "prepare_fields r m q = Inr f" using prepare_fields_total by blast
  obtain p where p: "fdiv (or_zero (handling_percent (pricing_of cfg))) (Fl 100) = Inr p"
    using fdiv_100 by blast
  obtain pw :: int where
    pc: "pick_tier_value r (get_or (tiers_production m) []) q to_float0 =
       Inr (f_production_unit_cost f)" and
    ac: "pick_tier_value r (get_or (tiers_air_transport m) []) q to_float0 =
       Inr (f_air_transport_unit_cost f)" and
    sc: "pick_tier_value r (get_or (tiers_sea_transport m) []) q to_float0 =
       Inr (f_sea_transport_unit_cost f)" and
    ua: "f_unit_price_air f = fadd (f_production_unit_cost f) (f_air_transport_unit_cost f)" and
    us: "f_unit_price_sea f = fadd (f_production_unit_cost f) (f_sea_transport_unit_cost f)"
    using prepare_fields_costs[OF f] by (elim exE conjE) (rule that)
  have tot: "compute_offer r q td m cfg = Inl OverflowError \<or>
      (\<exists>ofr. compute_offer r q td m cfg = Inr ofr)"
    by (rule compute_offer_total[OF f])
  have rng: "offer_in_range f q td \<longrightarrow> (\<exists>ofr. compute_offer r q td m cfg = Inr ofr)"
    using offer_in_range_returns[OF f] by blast
  have costs: "\<forall>ofr. compute_offer r q td m cfg = Inr ofr \<longrightarrow>
        production_unit_cost (air ofr) = f_production_unit_cost f \<and>
        production_unit_cost (sea ofr) = f_production_unit_cost f \<and>
        transport_unit_cost (air ofr) = f_air_transport_unit_cost f \<and>
        transport_unit_cost (sea ofr) = f_sea_transport_unit_cost f \<and>
        unit_price (air ofr) = fadd (f_production_unit_cost f) (f_air_transport_unit_cost f) \<and>
        unit_price (sea ofr) = fadd (f_production_unit_cost f) (f_sea_transport_unit_cost f) \<and>
        (\<exists>y. float_of_int (qty_ordered ofr) = Inr y \<and>
           total_cost (air ofr) =
             fmul (fadd (fmul y (unit_price (air ofr)))
                     (or_zero (handling_flat (pricing_of cfg))))
               (fadd (Fl 1) p) \<and>
           total_cost (sea ofr) =
             fmul (fadd (fmul y (unit_price (sea ofr)))
                     (or_zero (handling_flat (pricing_of cfg))))
               (fadd (Fl 1) p))"
  proof (intro allI impI)
    fix ofr assume o: "compute_offer r q td m cfg = Inr ofr"
    obtain y where y: "float_of_int (ceil_to_lot (max q (f_moq f)) (f_lot_size f)) = Inr y"
      and e: "ofr = offer_record f q td y (or_zero (handling_flat (pricing_of cfg))) p"
      using compute_offer_Inr[OF f p o] by (elim exE conjE) (rule that)
    have y': "float_of_int (qty_ordered ofr) = Inr y" using y by (simp add: e offer_record_def)
    have t: "total_cost (air ofr) =
             fmul (fadd (fmul y (unit_price (air ofr)))
                     (or_zero (handling_flat (pricing_of cfg))))
               (fadd (Fl 1) p) \<and>
           total_cost (sea ofr) =
             fmul (fadd (fmul y (unit_price (sea ofr)))
                     (or_zero (handling_flat (pricing_of cfg))))
               (fadd (Fl 1) p)"
      by (simp add: e offer_record_def)
    have ex: "\<exists>y. float_of_int (qty_ordered ofr) = Inr y \<and>
           total_cost (air ofr) =
             fmul (fadd (fmul y (unit_price (air ofr)))
                     (or_zero (handling_flat (pricing_of cfg))))
               (fadd (Fl 1) p) \<and>
           total_cost (sea ofr) =
             fmul (fadd (fmul y (unit_price (sea ofr)))
                     (or_zero (handling_flat (pricing_of cfg))))
               (fadd (Fl 1) p)"
      by (rule exI[of _ y]) (intro conjI y' t[THEN conjunct1] t[THEN conjunct2])
    have u: "production_unit_cost (air ofr) = f_production_unit_cost f"
      "production_unit_cost (sea ofr) = f_production_unit_cost f"
      "transport_unit_cost (air ofr) = f_air_transport_unit_cost f"
      "transport_unit_cost (sea ofr) = f_sea_transport_unit_cost f"
      "unit_price (air ofr) = fadd (f_production_unit_cost f) (f_air_transport_unit_cost f)"
      "unit_price (sea ofr) = fadd (f_production_unit_cost f) (f_sea_transport_unit_cost f)"
      by (simp_all add: e offer_record_def ua us)
    show "production_unit_cost (air ofr) = f_production_unit_cost f \<and>
        production_unit_cost (sea ofr) = f_production_unit_cost f \<and>
        transport_unit_cost (air ofr) = f_air_transport_unit_cost f \<and>
        transport_unit_cost (sea ofr) = f_sea_transport_unit_cost f \<and>
        unit_price (air ofr) = fadd (f_production_unit_cost f) (f_air_transport_unit_cost f) \<and>
        unit_price (sea ofr) = fadd (f_production_unit_cost f) (f_sea_transport_unit_cost f) \<and>
        (\<exists>y. float_of_int (qty_ordered ofr) = Inr y \<and>
           total_cost (air ofr) =
             fmul (fadd (fmul y (unit_price (air ofr)))
                     (or_zero (handling_flat (pricing_of cfg))))
               (fadd (Fl 1) p) \<and>
           total_cost (sea ofr) =
             fmul (fadd (fmul y (unit_price (sea ofr)))
                     (or_zero (handling_flat (pricing_of cfg))))
               (fadd (Fl 1) p))"
      by (intro conjI u ex)
  qed
  show ?thesis
    apply (rule exI[of _ f])
    apply (rule exI[of _ "f_production_unit_cost f"])
    apply (rule exI[of _ "f_air_transport_unit_cost f"])
    apply (rule exI[of _ "f_sea_transport_unit_cost f"])
    apply (rule exI[of _ p])
    by (intro conjI f pc ac sc p tot rng costs)
qed

text \<open>
  The example row with 150 requested, a flat amount of 25 and 10 percent: 150 are
  ordered, the unit prices are the floats 6.0 and 5.7, and the air total
  \<open>(150 * 6.0 + 25) * (1 + 10 / 100)\<close> is the float 1017.5000000000001, which is
  \<open>8950024650096641 / 2 ^ 43\<close>; in exact arithmetic it would be 1017.5.
\<close>

theorem compute_offer_costs_witness:
  "\<exists>f ofr p y. prepare_fields example_offer_row example_mapping 150 = Inr f \<and>
     offer_in_range f 150 739000 \<and>
     compute_offer example_offer_row 150 739000 example_mapping example_config = Inr ofr \<and>
     fdiv (or_zero (handling_percent (pricing_of example_config))) (Fl 100) = Inr p \<and>
     float_of_int (qty_ordered ofr) = Inr y \<and> y = Fl 150 \<and>
     unit_price (air ofr) = Fl 6 \<and> unit_price (sea ofr) = Fl (6417629469002957 / 2 ^ 50) \<and>
     total_cost (air ofr) =
       fmul (fadd (fmul y (unit_price (air ofr))) (Fl 25)) (fadd (Fl 1) p) \<and>
     total_cost (air ofr) = Fl (8950024650096641 / 2 ^ 43) \<and>
     total_cost (sea ofr) = Fl (8514618045497345 / 2 ^ 43) \<and>
     Fl (8950024650096641 / 2 ^ 43) \<noteq> Fl 1017.5"
proof -
  obtain f pc ac sc p where
    f: "prepare_fields example_offer_row example_mapping 150 = Inr f" and
    p: "fdiv (or_zero (handling_percent (pricing_of example_config))) (Fl 100) = Inr p" and
    rng: "offer_in_range f 150 739000 \<longrightarrow>
       (\<exists>ofr. compute_offer example_offer_row 150 739000 example_mapping example_config =
          Inr ofr)" and
    costs: "\<forall>ofr. compute_offer example_offer_row 150 739000 example_mapping example_config =
        Inr ofr \<longrightarrow>
        production_unit_cost (air ofr) = pc \<and> production_unit_cost (sea ofr) = pc \<and>
        transport_unit_cost (air ofr) = ac \<and> transport_unit_cost (sea ofr) = sc \<and>
        unit_price (air ofr) = fadd pc ac \<and> unit_price (sea ofr) = fadd pc sc \<and>
        (\<exists>y. float_of_int (qty_ordered ofr) = Inr y \<and>
           total_cost (air ofr) =
             fmul (fadd (fmul y (unit_price (air ofr)))
                     (or_zero (handling_flat (pricing_of example_config))))
               (fadd (Fl 1) p) \<and>
           total_cost (sea ofr) =
             fmul (fadd (fmul y (unit_price (sea ofr)))
                     (or_zero (handling_flat (pricing_of example_config))))
               (fadd (Fl 1) p))"
    using compute_offer_costs[of example_offer_row example_mapping 150 example_config 739000]
    by (elim exE conjE) (rule that)
  have fv: "f_moq f = 100" "f_lot_size f = 50" "f_lead_time_air_days f = 21"
    "f_lead_time_sea_days f = 42"
    using f example_fields[of 150] by auto
  have ir: "offer_in_range f 150 739000"
    by (simp add: offer_in_range_def fv ceil_to_lot_def)
  obtain ofr where o: "compute_offer example_offer_row 150 739000 example_mapping
      example_config = Inr ofr" using rng ir by blast
  obtain y where y: "float_of_int (qty_ordered ofr) = Inr y"
    and ta: "total_cost (air ofr) =
             fmul (fadd (fmul y (unit_price (air ofr)))
                     (or_zero (handling_flat (pricing_of example_config))))
               (fadd (Fl 1) p)"
    using costs[rule_format, OF o] by (elim exE conjE) (rule that)
  have ov: "qty_ordered ofr = 150" "unit_price (air ofr) = Fl 6"
    "unit_price (sea ofr) = Fl (6417629469002957 / 2 ^ 50)"
    "total_cost (air ofr) = Fl (8950024650096641 / 2 ^ 43)"
    "total_cost (sea ofr) = Fl (8514618045497345 / 2 ^ 43)"
    using o example_offer_150 by auto
  have yv: "y = Fl 150" using y by (simp add: ov(1) float_of_int_small)
  have ta': "total_cost (air ofr) =
       fmul (fadd (fmul y (unit_price (air ofr))) (Fl 25)) (fadd (Fl 1) p)"
    using ta by (simp add: example_pricing(2))
  have ne: "Fl (8950024650096641 / 2 ^ 43) \<noteq> Fl 1017.5" by simp
  show ?thesis
    apply (rule exI[of _ f])
    apply (rule exI[of _ ofr])
    apply (rule exI[of _ p])
    apply (rule exI[of _ y])
    by (intro conjI f ir o p y yv ov(2,3) ta' ov(4,5) ne)
qed

section \<open>Lead times, and clamping of the MOQ and the lot size\<close>

lemma transport_time_weeks_cases:
  "(col = [] \<or> r col = None \<longrightarrow> transport_time_weeks r col = 0) \<and>
   (\<forall>v. col \<noteq> [] \<and> r col = Some v \<longrightarrow> transport_time_weeks r col = to_int0 v)"
  by (auto simp: transport_time_weeks_def row_get_def)

lemma production_weeks_cases:
  assumes "production_weeks r m q = Inr pw"
  shows "(get_or (tiers_production_time m) [] = [] \<longrightarrow> pw = 0) \<and>
     (get_or (tiers_production_time m) [] \<noteq> [] \<longrightarrow>
        pick_tier_value r (get_or (tiers_production_time m) []) q to_int0 = Inr pw)"
  using assms by (auto simp: production_weeks_def Let_def)

text \<open>
  C4. For every row, mapping, requested quantity, date and configuration the lead time
  of each mode is the production weeks plus the transport weeks of that mode, times 7.
  The production weeks are the tiered value, 0 without a production time table. The
  transport weeks come from the mode's own column only: 0 when no column is configured
  or the row lacks it, the cell read as an integer otherwise. \<open>compute_offer\<close> either
  raises \<open>OverflowError\<close>, which it does when the target minus a lead time is no date, or
  returns an offer; it returns one when the ordered quantity has at most 53 bits and the
  order-by days are dates. In every offer it returns, the lead times are those of the
  fields and each order-by date is the target date minus the lead time, a date.
\<close>

theorem compute_offer_lead_times:
  "\<exists>f pw. prepare_fields r m q = Inr f \<and> production_weeks r m q = Inr pw \<and>
     (get_or (tiers_production_time m) [] = [] \<longrightarrow> pw = 0) \<and>
     (get_or (tiers_production_time m) [] \<noteq> [] \<longrightarrow>
        pick_tier_value r (get_or (tiers_production_time m) []) q to_int0 = Inr pw) \<and>
     f_lead_time_air_days f =
       (pw + transport_time_weeks r (get_or (air_transport_time_column m) [])) * 7 \<and>
     f_lead_time_sea_days f =
       (pw + transport_time_weeks r (get_or (sea_transport_time_column m) [])) * 7 \<and>
     (\<forall>col. col = [] \<or> r col = None \<longrightarrow> transport_time_weeks r col = 0) \<and>
     (\<forall>col v. col \<noteq> [] \<and> r col = Some v \<longrightarrow> transport_time_weeks r col = to_int0 v) \<and>
     (compute_offer r q td m cfg = Inl OverflowError \<or>
      (\<exists>ofr. compute_offer r q td m cfg = Inr ofr)) \<and>
     (offer_in_range f q td \<longrightarrow> (\<exists>ofr. compute_offer r q td m cfg = Inr ofr)) \<and>
     (\<not> (1 \<le> td - f_lead_time_air_days f \<and> td - f_lead_time_air_days f \<le> 3652059 \<and>
         1 \<le> td - f_lead_time_sea_days f \<and> td - f_lead_time_sea_days f \<le> 3652059) \<longrightarrow>
      compute_offer r q td m cfg = Inl OverflowError) \<and>
     (\<forall>ofr. compute_offer r q td m cfg = Inr ofr \<longrightarrow>
        lead_time_days (air ofr) = f_lead_time_air_days f \<and>
        lead_time_days (sea ofr) = f_lead_time_sea_days f \<and>
        order_by (air ofr) = td - lead_time_days (air ofr) \<and>
        order_by (sea ofr) = td - lead_time_days (sea ofr) \<and>
        1 \<le> order_by (air ofr) \<and> order_by (air ofr) \<le> 3652059 \<and>
        1 \<le> order_by (sea ofr) \<and> order_by (sea ofr) \<le> 3652059)"
proof -
  obtain f where f: "prepare_fields r m q = Inr f" using prepare_fields_total by blast
  obtain p where p: "fdiv (or_zero (handling_percent (pricing_of cfg))) (Fl 100) = Inr p"
    using fdiv_100 by blast
  obtain pw where pw: "production_weeks r m q = Inr pw" and
    la: "f_lead_time_air_days f =
       (pw + transport_time_weeks r (get_or (air_transport_time_column m) [])) * 7" and
    ls: "f_lead_time_sea_days f =
       (pw + transport_time_weeks r (get_or (sea_transport_time_column m) [])) * 7"
    using prepare_fields_costs[OF f] by (elim exE conjE) (rule that)
  note pc = production_weeks_cases[OF pw]
  have t0: "\<forall>col. col = [] \<or> r col = None \<longrightarrow> transport_time_weeks r col = 0"
    using transport_time_weeks_cases by blast
  have t1: "\<forall>col v. col \<noteq> [] \<and> r col = Some v \<longrightarrow> transport_time_weeks r col = to_int0 v"
    using transport_time_weeks_cases by blast
  have tot: "compute_offer r q td m cfg = Inl OverflowError \<or>
      (\<exists>ofr. compute_offer r q td m cfg = Inr ofr)"
    by (rule compute_offer_total[OF f])
  have rng: "offer_in_range f q td \<longrightarrow> (\<exists>ofr. compute_offer r q td m cfg = Inr ofr)"
    using offer_in_range_returns[OF f] by blast
  have out: "\<not> (1 \<le> td - f_lead_time_air_days f \<and> td - f_lead_time_air_days f \<le> 3652059 \<and>
         1 \<le> td - f_lead_time_sea_days f \<and> td - f_lead_time_sea_days f \<le> 3652059) \<longrightarrow>
      compute_offer r q td m cfg = Inl OverflowError"
  proof
    assume "\<not> (1 \<le> td - f_lead_time_air_days f \<and> td - f_lead_time_air_days f \<le> 3652059 \<and>
         1 \<le> td - f_lead_time_sea_days f \<and> td - f_lead_time_sea_days f \<le> 3652059)"
    then have "\<not> (1 \<le> td - f_lead_time_air_days f \<and> td - f_lead_time_air_days f \<le> 3652059) \<or>
       \<not> (1 \<le> td - f_lead_time_sea_days f \<and> td - f_lead_time_sea_days f \<le> 3652059)"
      by blast
    then have "bind_err (timedelta (f_lead_time_air_days f)) (date_sub td) = Inl OverflowError \<or>
       bind_err (timedelta (f_lead_time_sea_days f)) (date_sub td) = Inl OverflowError"
      using order_by_out_of_range by blast
    then show "compute_offer r q td m cfg = Inl OverflowError"
      using compute_offer_raises[OF f] by blast
  qed
  have ob: "\<forall>ofr. compute_offer r q td m cfg = Inr ofr \<longrightarrow>
        lead_time_days (air ofr) = f_lead_time_air_days f \<and>
        lead_time_days (sea ofr) = f_lead_time_sea_days f \<and>
        order_by (air ofr) = td - lead_time_days (air ofr) \<and>
        order_by (sea ofr) = td - lead_time_days (sea ofr) \<and>
        1 \<le> order_by (air ofr) \<and> order_by (air ofr) \<le> 3652059 \<and>
        1 \<le> order_by (sea ofr) \<and> order_by (sea ofr) \<le> 3652059"
  proof (intro allI impI)
    fix ofr assume o: "compute_offer r q td m cfg = Inr ofr"
    obtain y where e: "ofr = offer_record f q td y (or_zero (handling_flat (pricing_of cfg))) p"
      and a: "1 \<le> td - f_lead_time_air_days f" "td - f_lead_time_air_days f \<le> 3652059"
      and s: "1 \<le> td - f_lead_time_sea_days f" "td - f_lead_time_sea_days f \<le> 3652059"
      using compute_offer_Inr[OF f p o] by (elim exE conjE) (rule that)
    show "lead_time_days (air ofr) = f_lead_time_air_days f \<and>
        lead_time_days (sea ofr) = f_lead_time_sea_days f \<and>
        order_by (air ofr) = td - lead_time_days (air ofr) \<and>
        order_by (sea ofr) = td - lead_time_days (sea ofr) \<and>
        1 \<le> order_by (air ofr) \<and> order_by (air ofr) \<le> 3652059 \<and>
        1 \<le> order_by (sea ofr) \<and> order_by (sea ofr) \<le> 3652059"
      using a s by (simp add: e offer_record_def)
  qed
  show ?thesis
    apply (rule exI[of _ f])
    apply (rule exI[of _ pw])
    by (intro conjI f pw pc[THEN conjunct1] pc[THEN conjunct2] la ls t0 t1 tot rng out ob)
qed

text \<open>
  The example of the specification: 2 production weeks and 1 week by air give 21 days and
  the order-by date 21 days before the target; by sea, with 4 weeks, 42 days. A row
  without the transport columns keeps the production weeks only. With 200000 production
  weeks no order-by date exists and \<open>OverflowError\<close> is raised.
\<close>

theorem compute_offer_lead_times_witness:
  "\<exists>f ofr. prepare_fields example_offer_row example_mapping 30 = Inr f \<and>
     offer_in_range f 30 739000 \<and>
     compute_offer example_offer_row 30 739000 example_mapping example_config = Inr ofr \<and>
     production_weeks example_offer_row example_mapping 30 = Inr 2 \<and>
     transport_time_weeks example_offer_row ''Delais de transport Avion'' = 1 \<and>
     lead_time_days (air ofr) = 21 \<and> order_by (air ofr) = 739000 - 21 \<and>
     lead_time_days (sea ofr) = 42 \<and> order_by (sea ofr) = 739000 - 42 \<and>
     transport_time_weeks example_row ''Delais de transport Avion'' = 0 \<and>
     compute_offer (example_offer_row(''Temps de prod pour 200'' \<mapsto> CStr ''200000'')) 30 739000
       example_mapping example_config = Inl OverflowError"
proof -
  obtain f pw where
    f: "prepare_fields example_offer_row example_mapping 30 = Inr f" and
    pw: "production_weeks example_offer_row example_mapping 30 = Inr pw" and
    la: "f_lead_time_air_days f =
       (pw + transport_time_weeks example_offer_row
               (get_or (air_transport_time_column example_mapping) [])) * 7" and
    t0: "\<forall>col. col = [] \<or> example_offer_row col = None \<longrightarrow>
           transport_time_weeks example_offer_row col = 0" and
    t1: "\<forall>col v. col \<noteq> [] \<and> example_offer_row col = Some v \<longrightarrow>
           transport_time_weeks example_offer_row col = to_int0 v" and
    rng: "offer_in_range f 30 739000 \<longrightarrow>
       (\<exists>ofr. compute_offer example_offer_row 30 739000 example_mapping example_config =
          Inr ofr)" and
    ob: "\<forall>ofr. compute_offer example_offer_row 30 739000 example_mapping example_config =
        Inr ofr \<longrightarrow>
        lead_time_days (air ofr) = f_lead_time_air_days f \<and>
        lead_time_days (sea ofr) = f_lead_time_sea_days f \<and>
        order_by (air ofr) = 739000 - lead_time_days (air ofr) \<and>
        order_by (sea ofr) = 739000 - lead_time_days (sea ofr) \<and>
        1 \<le> order_by (air ofr) \<and> order_by (air ofr) \<le> 3652059 \<and>
        1 \<le> order_by (sea ofr) \<and> order_by (sea ofr) \<le> 3652059"
    using compute_offer_lead_times[of example_offer_row example_mapping 30 739000
        example_config]
    by (elim exE conjE) (rule that)
  have fv: "f_moq f = 100" "f_lot_size f = 50" "f_lead_time_air_days f = 21"
    "f_lead_time_sea_days f = 42"
    using f example_fields[of 30] by auto
  have ir: "offer_in_range f 30 739000"
    by (simp add: offer_in_range_def fv ceil_to_lot_def)
  obtain ofr where o: "compute_offer example_offer_row 30 739000 example_mapping
      example_config = Inr ofr" using rng ir by blast
  have l: "lead_time_days (air ofr) = f_lead_time_air_days f"
    "lead_time_days (sea ofr) = f_lead_time_sea_days f"
    "order_by (air ofr) = 739000 - lead_time_days (air ofr)"
    "order_by (sea ofr) = 739000 - lead_time_days (sea ofr)"
    using ob[rule_format, OF o] by simp_all
  have c: "example_offer_row ''Delais de transport Avion'' = Some (CStr ''1'')"
    by (simp add: example_offer_row_def)
  have ta: "transport_time_weeks example_offer_row ''Delais de transport Avion'' = 1"
    using t1[rule_format, of "''Delais de transport Avion''" "CStr ''1''"] c
    by (simp add: to_int0_examples)
  have col: "get_or (air_transport_time_column example_mapping) [] =
      ''Delais de transport Avion''"
    by (simp add: example_mapping_def get_or_def)
  have "(pw + 1) * 7 = 21" using la fv(3) by (simp add: col ta)
  then have pw2: "pw = 2" by simp
  have w: "production_weeks example_offer_row example_mapping 30 = Inr 2" using pw pw2 by simp
  have la21: "lead_time_days (air ofr) = 21" using l(1) fv(3) by simp
  have ls42: "lead_time_days (sea ofr) = 42" using l(2) fv(4) by simp
  have oa: "order_by (air ofr) = 739000 - 21" using l(3) la21 by simp
  have os: "order_by (sea ofr) = 739000 - 42" using l(4) ls42 by simp
  have z: "transport_time_weeks example_row ''Delais de transport Avion'' = 0"
    by (simp add: transport_time_weeks_def example_row_def)
  show ?thesis
    apply (rule exI[of _ f])
    apply (rule exI[of _ ofr])
    by (intro conjI f ir o w ta la21 oa ls42 os z example_overflow)
qed

lemma to_int0_CInt_1: "to_int0 (CInt 1) = 1"
  by (simp add: to_int0_def to_int_def to_int_try_def str_int_def text_eval bind_err_def
      round64_eval)

lemma to_int_try_CInt:
  "to_int_try (CInt n) d = int_of_float (round64 (of_int n))"
  by (simp only: to_int_try_def extract_number_token.simps option.case float_of_str_int
      bind_err_Inr)

text \<open>
  C10. For every row, mapping, requested quantity, date and configuration the MOQ and
  the lot size are the integer read from the cell, raised to 1: both are at least 1.
  They are exactly 1 when the row has no such column, when the cell reads as an integer
  of at most 1 (zero and negative values), and when the cell has no numeric token or its
  conversion fails, which read as 0. \<open>compute_offer\<close> either raises \<open>OverflowError\<close> or
  returns an offer; it returns one when the ordered quantity has at most 53 bits and the
  order-by days are dates. The ordered quantity of every offer it returns is at least
  \<open>max q 1\<close>, for every requested quantity \<open>q\<close>.
\<close>

theorem compute_offer_clamps:
  "\<exists>f. prepare_fields r m q = Inr f \<and>
     f_moq f = max 1 (to_int0 (row_get r (get_or (moq m) []) (CInt 1))) \<and>
     f_lot_size f = max 1 (to_int0 (row_get r (get_or (lot_size m) []) (CInt 1))) \<and>
     1 \<le> f_moq f \<and> 1 \<le> f_lot_size f \<and>
     (r (get_or (moq m) []) = None \<longrightarrow> f_moq f = 1) \<and>
     (r (get_or (lot_size m) []) = None \<longrightarrow> f_lot_size f = 1) \<and>
     (\<forall>v. r (get_or (moq m) []) = Some v \<and> to_int0 v \<le> 1 \<longrightarrow> f_moq f = 1) \<and>
     (\<forall>v. r (get_or (lot_size m) []) = Some v \<and> to_int0 v \<le> 1 \<longrightarrow> f_lot_size f = 1) \<and>
     (\<forall>v. extract_number_token v = None \<longrightarrow> to_int0 v = 0) \<and>
     (\<forall>v e. to_int_try v 0 = Inl e \<longrightarrow> to_int0 v = 0) \<and>
     (compute_offer r q td m cfg = Inl OverflowError \<or>
      (\<exists>ofr. compute_offer r q td m cfg = Inr ofr)) \<and>
     (offer_in_range f q td \<longrightarrow> (\<exists>ofr. compute_offer r q td m cfg = Inr ofr)) \<and>
     (\<forall>ofr. compute_offer r q td m cfg = Inr ofr \<longrightarrow>
        qty_ordered ofr = ceil_to_lot (max q (f_moq f)) (f_lot_size f) \<and>
        max q 1 \<le> qty_ordered ofr)"
proof -
  obtain f where f: "prepare_fields r m q = Inr f" using prepare_fields_total by blast
  note mq = prepare_fields_clamps(1)[OF f] and lt = prepare_fields_clamps(2)[OF f]
    and ge = prepare_fields_clamps(3,4)[OF f]
  have m0: "r (get_or (moq m) []) = None \<longrightarrow> f_moq f = 1"
    using mq by (simp add: row_get_def to_int0_CInt_1)
  have l0: "r (get_or (lot_size m) []) = None \<longrightarrow> f_lot_size f = 1"
    using lt by (simp add: row_get_def to_int0_CInt_1)
  have m1: "\<forall>v. r (get_or (moq m) []) = Some v \<and> to_int0 v \<le> 1 \<longrightarrow> f_moq f = 1"
    using mq by (simp add: row_get_def)
  have l1: "\<forall>v. r (get_or (lot_size m) []) = Some v \<and> to_int0 v \<le> 1 \<longrightarrow> f_lot_size f = 1"
    using lt by (simp add: row_get_def)
  have u0: "\<forall>v. extract_number_token v = None \<longrightarrow> to_int0 v = 0"
    by (simp add: to_int0_def to_int_def to_int_try_def)
  have u1: "\<forall>v e. to_int_try v 0 = Inl e \<longrightarrow> to_int0 v = 0"
    by (simp add: to_int0_def to_int_def)
  have tot: "compute_offer r q td m cfg = Inl OverflowError \<or>
      (\<exists>ofr. compute_offer r q td m cfg = Inr ofr)"
    by (rule compute_offer_total[OF f])
  have rng: "offer_in_range f q td \<longrightarrow> (\<exists>ofr. compute_offer r q td m cfg = Inr ofr)"
    using offer_in_range_returns[OF f] by blast
  have qo: "\<forall>ofr. compute_offer r q td m cfg = Inr ofr \<longrightarrow>
        qty_ordered ofr = ceil_to_lot (max q (f_moq f)) (f_lot_size f) \<and>
        max q 1 \<le> qty_ordered ofr"
  proof (intro allI impI)
    fix ofr assume o: "compute_offer r q td m cfg = Inr ofr"
    have e: "qty_ordered ofr = ceil_to_lot (max q (f_moq f)) (f_lot_size f)"
      by (rule compute_offer_qty[OF f o])
    have "max q (f_moq f) \<le> qty_ordered ofr"
      using ceil_to_lot_props[OF ge(2), of "max q (f_moq f)"] e by simp
    then have "max q 1 \<le> qty_ordered ofr" using ge(1) by simp
    then show "qty_ordered ofr = ceil_to_lot (max q (f_moq f)) (f_lot_size f) \<and>
        max q 1 \<le> qty_ordered ofr" using e by simp
  qed
  show ?thesis
    by (rule exI[of _ f]) (intro conjI f mq lt ge m0 l0 m1 l1 u0 u1 tot rng qo)
qed

text \<open>
  A row whose MOQ cell is \<open>-5\<close> and whose lot size cell is empty (NaN), with nothing
  requested: one unit is ordered. The row of the tier example has neither column, and a
  request of \<open>-3\<close> orders one unit too. An integer cell of 54 bits is read through its
  float, and one of 1025 bits, whose float is infinite, reads as 0.
\<close>

theorem compute_offer_clamps_witness:
  "(\<exists>ofr. compute_offer example_bad_row 0 739000 example_mapping example_config = Inr ofr \<and>
      qty_ordered ofr = 1) \<and>
   (\<exists>ofr. compute_offer example_row (- 3) 739000 example_mapping example_config = Inr ofr \<and>
      qty_ordered ofr = 1) \<and>
   to_int0 (CStr ''-5'') = - 5 \<and> to_int0 (CFloat NaN) = 0 \<and> to_int0 (CStr ''n/a'') = 0 \<and>
   to_int0 (CStr ''0'') = 0 \<and> to_int0 CNone = 0 \<and>
   to_int0 (CInt 9007199254740993) = 9007199254740992 \<and>
   to_int_try (CInt (2 ^ 1024)) 0 = Inl OverflowError \<and> to_int0 (CInt (2 ^ 1024)) = 0"
proof -
  have v: "to_int0 (CStr ''-5'') = - 5" "to_int0 (CFloat NaN) = 0" "to_int0 (CStr ''n/a'') = 0"
    "to_int0 (CStr ''0'') = 0" "to_int0 CNone = 0"
    by (simp_all add: to_int0_def to_int_def to_int_try_def text_eval bind_err_def
        round64_eval)
  have big: "to_int0 (CInt 9007199254740993) = 9007199254740992"
    by (simp add: to_int0_def to_int_def to_int_try_CInt round64_eval)
  have "round64 (of_int (2 ^ 1024)) = PInf" by (rule round64_huge) simp
  then have ov: "to_int_try (CInt (2 ^ 1024)) 0 = Inl OverflowError"
    by (simp add: to_int_try_CInt)
  have cols: "get_or (moq example_mapping) [] = ''MOQ''"
    "get_or (lot_size example_mapping) [] = ''Lot''"
    by (simp_all add: example_mapping_def get_or_def)
  obtain f where
    f1: "prepare_fields example_bad_row example_mapping 0 = Inr f" and
    m1: "\<forall>v. example_bad_row (get_or (moq example_mapping) []) = Some v \<and> to_int0 v \<le> 1
           \<longrightarrow> f_moq f = 1" and
    l1: "\<forall>v. example_bad_row (get_or (lot_size example_mapping) []) = Some v \<and> to_int0 v \<le> 1
           \<longrightarrow> f_lot_size f = 1" and
    u1: "\<forall>v e. to_int_try v 0 = Inl e \<longrightarrow> to_int0 v = 0" and
    r1: "offer_in_range f 0 739000 \<longrightarrow>
       (\<exists>ofr. compute_offer example_bad_row 0 739000 example_mapping example_config = Inr ofr)"
    and q1: "\<forall>ofr. compute_offer example_bad_row 0 739000 example_mapping example_config =
        Inr ofr \<longrightarrow>
        qty_ordered ofr = ceil_to_lot (max 0 (f_moq f)) (f_lot_size f) \<and>
        max 0 1 \<le> qty_ordered ofr"
    using compute_offer_clamps[of example_bad_row example_mapping 0 739000 example_config]
    by (elim exE conjE) (rule that)
  have ov0: "to_int0 (CInt (2 ^ 1024)) = 0" using u1 ov by blast
  have "example_bad_row ''MOQ'' = Some (CStr ''-5'')" by (simp add: example_bad_row_def)
  then have fm: "f_moq f = 1" using m1 v(1) by (simp add: cols)
  have "example_bad_row ''Lot'' = Some (CFloat NaN)" by (simp add: example_bad_row_def)
  then have fl: "f_lot_size f = 1" using l1 v(2) by (simp add: cols)
  obtain pw where ld: "f_lead_time_air_days f =
       (pw + transport_time_weeks example_bad_row
          (get_or (air_transport_time_column example_mapping) [])) * 7"
     "f_lead_time_sea_days f =
       (pw + transport_time_weeks example_bad_row
          (get_or (sea_transport_time_column example_mapping) [])) * 7"
     and pwe: "production_weeks example_bad_row example_mapping 0 = Inr pw"
    using prepare_fields_costs[OF f1] by (elim exE conjE) (rule that)
  have "production_weeks example_bad_row example_mapping 0 = Inr 0"
    by (simp add: production_weeks_def example_mapping_def get_or_def pick_single row_get_def
        example_bad_row_def to_int0_def to_int_def to_int_try_def str_int_def text_eval
        bind_err_def round64_eval)
  then have pw0: "pw = 0" using pwe by simp
  have ld0: "f_lead_time_air_days f = 0" "f_lead_time_sea_days f = 0"
    using ld by (simp_all add: pw0 transport_time_weeks_def example_bad_row_def
        example_mapping_def get_or_def)
  have ir: "offer_in_range f 0 739000"
    by (simp add: offer_in_range_def fm fl ld0 ceil_to_lot_def)
  obtain ofr where o1: "compute_offer example_bad_row 0 739000 example_mapping example_config =
      Inr ofr" using r1 ir by blast
  have "qty_ordered ofr = ceil_to_lot (max 0 (f_moq f)) (f_lot_size f)"
    using q1 o1 by blast
  then have a: "qty_ordered ofr = 1" by (simp add: fm fl ceil_to_lot_def)
  have ex1: "\<exists>ofr. compute_offer example_bad_row 0 739000 example_mapping example_config =
      Inr ofr \<and> qty_ordered ofr = 1"
    by (rule exI[of _ ofr]) (intro conjI o1 a)
  obtain g where
    f2: "prepare_fields example_row example_mapping (- 3) = Inr g" and
    m2: "example_row (get_or (moq example_mapping) []) = None \<longrightarrow> f_moq g = 1" and
    l2: "example_row (get_or (lot_size example_mapping) []) = None \<longrightarrow> f_lot_size g = 1" and
    r2: "offer_in_range g (- 3) 739000 \<longrightarrow>
       (\<exists>ofr. compute_offer example_row (- 3) 739000 example_mapping example_config =
          Inr ofr)" and
    q2: "\<forall>ofr. compute_offer example_row (- 3) 739000 example_mapping example_config =
        Inr ofr \<longrightarrow>
        qty_ordered ofr = ceil_to_lot (max (- 3) (f_moq g)) (f_lot_size g) \<and>
        max (- 3) 1 \<le> qty_ordered ofr"
    using compute_offer_clamps[of example_row example_mapping "- 3" 739000 example_config]
    by (elim exE conjE) (rule that)
  have gm: "f_moq g = 1" using m2 by (simp add: cols example_row_def)
  have gl: "f_lot_size g = 1" using l2 by (simp add: cols example_row_def)
  obtain pw' where ld': "f_lead_time_air_days g =
       (pw' + transport_time_weeks example_row
          (get_or (air_transport_time_column example_mapping) [])) * 7"
     "f_lead_time_sea_days g =
       (pw' + transport_time_weeks example_row
          (get_or (sea_transport_time_column example_mapping) [])) * 7"
     and pwe': "production_weeks example_row example_mapping (- 3) = Inr pw'"
    using prepare_fields_costs[OF f2] by (elim exE conjE) (rule that)
  have "production_weeks example_row example_mapping (- 3) = Inr 0"
    by (simp add: production_weeks_def example_mapping_def get_or_def pick_single row_get_def
        example_row_def to_int0_def to_int_def to_int_try_def str_int_def text_eval
        bind_err_def round64_eval)
  then have pw0': "pw' = 0" using pwe' by simp
  have ld0': "f_lead_time_air_days g = 0" "f_lead_time_sea_days g = 0"
    using ld' by (simp_all add: pw0' transport_time_weeks_def example_row_def
        example_mapping_def get_or_def)
  have ir': "offer_in_range g (- 3) 739000"
    by (simp add: offer_in_range_def gm gl ld0' ceil_to_lot_def)
  obtain ofr2 where o2: "compute_offer example_row (- 3) 739000 example_mapping
      example_config = Inr ofr2" using r2 ir' by blast
  have "qty_ordered ofr2 = ceil_to_lot (max (- 3) (f_moq g)) (f_lot_size g)"
    using q2 o2 by blast
  then have b: "qty_ordered ofr2 = 1" by (simp add: gm gl ceil_to_lot_def)
  have ex2: "\<exists>ofr. compute_offer example_row (- 3) 739000 example_mapping example_config =
      Inr ofr \<and> qty_ordered ofr = 1"
    by (rule exI[of _ ofr2]) (intro conjI o2 b)
  show ?thesis by (intro conjI ex1 ex2 v big ov ov0)
qed

section \<open>Transitive dependencies\<close>

lemma dep_keys_subset: "dep_keys dm \<subseteq> fst ` set dm"
proof
  fix k assume "k \<in> dep_keys dm"
  then have "map_of dm k \<noteq> None" by (auto simp: dep_keys_def deps_of_def split: option.splits)
  then show "k \<in> fst ` set dm" by (simp add: map_of_eq_None_iff)
qed

lemma finite_dep_keys: "finite (dep_keys dm)"
  using dep_keys_subset finite_surj[of "set dm" _ fst] by (metis List.finite_set finite_imageI finite_subset)

lemma card_dep_keys: "card (dep_keys dm) \<le> length dm"
proof -
  have "card (dep_keys dm) \<le> card (fst ` set dm)"
    using dep_keys_subset by (simp add: card_mono)
  also have "\<dots> \<le> card (set dm)" by (simp add: card_image_le)
  also have "\<dots> \<le> length dm" by (rule card_length)
  finally show ?thesis .
qed

lemma get_all_deps_loop_total:
  assumes call: "\<And>c V. card (dep_keys dm - V) < n \<Longrightarrow>
            \<exists>res V'. get_all_deps n dm c V = Some (res, V') \<and> V \<subseteq> V'"
  shows "ds = [] \<or> card (dep_keys dm - V) < n \<Longrightarrow>
         \<exists>res' V'. get_all_deps_loop n dm ds (res, V) = Some (res', V') \<and> V \<subseteq> V'"
proof (induction ds arbitrary: res V)
  case Nil
  then show ?case by simp
next
  case (Cons d ds)
  then have lt: "card (dep_keys dm - V) < n" by simp
  obtain sub V1 where s: "get_all_deps n dm d V = Some (sub, V1)" and sub: "V \<subseteq> V1"
    using call[OF lt] by blast
  have "card (dep_keys dm - V1) \<le> card (dep_keys dm - V)"
    using sub finite_dep_keys[of dm] by (simp add: card_mono Diff_mono)
  then have "card (dep_keys dm - V1) < n" using lt by simp
  then obtain res' V' where
    "get_all_deps_loop n dm ds (res @ [d] @ sub, V1) = Some (res', V')" and "V1 \<subseteq> V'"
    using Cons.IH[of V1 "res @ [d] @ sub"] by blast
  then show ?case using s sub by auto
qed

lemma get_all_deps_total:
  "card (dep_keys dm - V) < n \<Longrightarrow>
   \<exists>res V'. get_all_deps n dm c V = Some (res, V') \<and> V \<subseteq> V'"
proof (induction n arbitrary: c V)
  case 0
  then show ?case by simp
next
  case (Suc n)
  show ?case
  proof (cases "c \<in> V")
    case True
    then show ?thesis by simp
  next
    case False
    have "deps_of dm c = [] \<or> card (dep_keys dm - insert c V) < n"
    proof (cases "deps_of dm c = []")
      case True
      then show ?thesis by simp
    next
      case ne: False
      then have "c \<in> dep_keys dm - V" using False by (simp add: dep_keys_def)
      then have "dep_keys dm - insert c V \<subset> dep_keys dm - V" by auto
      then have "card (dep_keys dm - insert c V) < card (dep_keys dm - V)"
        using finite_dep_keys[of dm] by (simp add: psubset_card_mono)
      then show ?thesis using Suc.prems by simp
    qed
    then obtain res' V' where
      "get_all_deps_loop n dm (deps_of dm c) ([], insert c V) = Some (res', V')"
      and "insert c V \<subseteq> V'"
      using get_all_deps_loop_total[of dm n "deps_of dm c" "insert c V" "[]"] Suc.IH by blast
    then show ?thesis using False by auto
  qed
qed

lemma get_all_deps_fuel_step:
  "(\<forall>r. get_all_deps n dm c V = Some r \<longrightarrow> get_all_deps (Suc n) dm c V = Some r)"
  "(\<forall>r. get_all_deps_loop n dm ds st = Some r \<longrightarrow> get_all_deps_loop (Suc n) dm ds st = Some r)"
proof (induction n dm c V and n dm ds st rule: get_all_deps_get_all_deps_loop.induct)
  case (1 dm c V)
  then show ?case by simp
next
  case (2 n dm c V)
  then show ?case by (simp del: get_all_deps.simps(2) add: get_all_deps.simps(2)[of n] get_all_deps.simps(2)[of "Suc n"])
next
  case (3 n dm st)
  then show ?case by simp
next
  case (4 n dm d ds st)
  show ?case
  proof (intro allI impI)
    fix r assume a: "get_all_deps_loop n dm (d # ds) st = Some r"
    then obtain sub where s: "get_all_deps n dm d (snd st) = Some sub"
      and l: "get_all_deps_loop n dm ds (fst st @ [d] @ fst sub, snd sub) = Some r"
      by (auto split: option.splits)
    have s': "get_all_deps (Suc n) dm d (snd st) = Some sub" using 4(1) s by blast
    have "get_all_deps_loop (Suc n) dm ds (fst st @ [d] @ fst sub, snd sub) = Some r"
      using 4(2)[OF s] l by blast
    then show "get_all_deps_loop (Suc n) dm (d # ds) st = Some r"
      using s' by (simp del: get_all_deps.simps)
  qed
qed

lemma get_all_deps_fuel:
  "get_all_deps n dm c V = Some r \<Longrightarrow> get_all_deps (n + k) dm c V = Some r"
proof (induction k)
  case 0
  then show ?case by simp
next
  case (Suc k)
  then have "get_all_deps (n + k) dm c V = Some r" by simp
  then have "get_all_deps (Suc (n + k)) dm c V = Some r"
    using get_all_deps_fuel_step(1)[of "n + k" dm c V] by blast
  then show ?case by (simp del: get_all_deps.simps)
qed

lemma get_all_deps_names:
  "(\<forall>r. get_all_deps n dm c V = Some r \<longrightarrow>
      set (fst r) \<subseteq> listed dm \<and> (c \<notin> V \<longrightarrow> set (deps_of dm c) \<subseteq> set (fst r)))"
  "(\<forall>r. get_all_deps_loop n dm ds st = Some r \<longrightarrow>
      (set (fst st) \<subseteq> listed dm \<and> set ds \<subseteq> listed dm \<longrightarrow> set (fst r) \<subseteq> listed dm) \<and>
      set (fst st) \<union> set ds \<subseteq> set (fst r))"
proof (induction n dm c V and n dm ds st rule: get_all_deps_get_all_deps_loop.induct)
  case (1 dm c V)
  then show ?case by simp
next
  case (2 n dm c V)
  have "set (deps_of dm c) \<subseteq> listed dm" by (auto simp: listed_def)
  then show ?case using 2 by auto
next
  case (3 n dm st)
  then show ?case by simp
next
  case (4 n dm d ds st)
  show ?case
  proof (intro allI impI)
    fix r assume a: "get_all_deps_loop n dm (d # ds) st = Some r"
    then obtain sub where s: "get_all_deps n dm d (snd st) = Some sub"
      and l: "get_all_deps_loop n dm ds (fst st @ [d] @ fst sub, snd sub) = Some r"
      by (auto split: option.splits)
    have s1: "set (fst sub) \<subseteq> listed dm" using 4(1)[rule_format, OF s] by blast
    have l1: "(set (fst st @ [d] @ fst sub) \<subseteq> listed dm \<and> set ds \<subseteq> listed dm \<longrightarrow>
        set (fst r) \<subseteq> listed dm) \<and> set (fst st @ [d] @ fst sub) \<union> set ds \<subseteq> set (fst r)"
      using 4(2)[OF s, rule_format, OF l] by simp
    show "(set (fst st) \<subseteq> listed dm \<and> set (d # ds) \<subseteq> listed dm \<longrightarrow> set (fst r) \<subseteq> listed dm) \<and>
      set (fst st) \<union> set (d # ds) \<subseteq> set (fst r)"
      using s1 l1 by auto
  qed
qed

lemma resolve_loop_total:
  assumes "length dm < n"
  shows "\<exists>all_deps. resolve_loop n dm cmps acc = Some all_deps \<and>
           fst ` set all_deps = set cmps \<union> fst ` set acc \<and>
           (\<forall>c \<in> set cmps. \<exists>r. get_all_deps n dm c {} = Some r \<and> map_of all_deps c = Some (fst r)) \<and>
           (\<forall>c. c \<notin> set cmps \<longrightarrow> map_of all_deps c = map_of acc c)"
proof (induction cmps arbitrary: acc)
  case Nil
  then show ?case by simp
next
  case (Cons c cmps)
  have "card (dep_keys dm - {}) < n" using assms card_dep_keys[of dm] by simp
  then obtain r where r: "get_all_deps n dm c {} = Some r"
    using get_all_deps_total[of dm "{}" n c] by auto
  obtain all_deps where a: "resolve_loop n dm cmps (AList.update c (fst r) acc) = Some all_deps"
    and d: "fst ` set all_deps = set cmps \<union> fst ` set (AList.update c (fst r) acc)"
    and g: "\<forall>c' \<in> set cmps. \<exists>r'. get_all_deps n dm c' {} = Some r' \<and> map_of all_deps c' = Some (fst r')"
    and k: "\<forall>c'. c' \<notin> set cmps \<longrightarrow> map_of all_deps c' = map_of (AList.update c (fst r) acc) c'"
    using Cons.IH[of "AList.update c (fst r) acc"] by blast
  have 1: "resolve_loop n dm (c # cmps) acc = Some all_deps" using r a by simp
  have 2: "fst ` set all_deps = set (c # cmps) \<union> fst ` set acc"
    using d by (auto simp: AList.dom_update)
  have 3: "\<forall>c' \<in> set (c # cmps). \<exists>r'. get_all_deps n dm c' {} = Some r' \<and> map_of all_deps c' = Some (fst r')"
  proof
    fix c' assume "c' \<in> set (c # cmps)"
    then consider "c' \<in> set cmps" | "c' = c" "c' \<notin> set cmps" by auto
    then show "\<exists>r'. get_all_deps n dm c' {} = Some r' \<and> map_of all_deps c' = Some (fst r')"
    proof cases
      case 1
      then show ?thesis using g by blast
    next
      case 2
      then have "map_of all_deps c' = Some (fst r)" using k by (simp add: AList.update_conv')
      then show ?thesis using r 2 by blast
    qed
  qed
  have 4: "\<forall>c'. c' \<notin> set (c # cmps) \<longrightarrow> map_of all_deps c' = map_of acc c'"
    using k by (simp add: AList.update_conv')
  show ?case using 1 2 3 4 by blast
qed

lemma resolve_loop_fuel:
  "resolve_loop n dm cmps acc = Some r \<Longrightarrow> resolve_loop (n + k) dm cmps acc = Some r"
proof (induction cmps arbitrary: acc)
  case Nil
  then show ?case by simp
next
  case (Cons c cmps)
  from Cons.prems obtain x where x: "get_all_deps n dm c {} = Some x"
    and l: "resolve_loop n dm cmps (AList.update c (fst x) acc) = Some r"
    by (auto split: option.splits)
  have "get_all_deps (n + k) dm c {} = Some x" using get_all_deps_fuel[OF x] .
  then show ?case using Cons.IH[OF l] by simp
qed

text \<open>
  C9, as the code has it. For every dependency map, cyclic ones included, and every list
  of components, a recursion depth above the number of entries of the map suffices: the
  computation returns, and a larger bound returns the same. Each component is mapped to
  a list that holds all its direct dependencies and only names listed as dependencies
  in the map. The list is not deduplicated.
\<close>

theorem resolve_dependencies_terminates:
  "length dm < n \<longrightarrow>
     (\<exists>all_deps. resolve_dependencies n components dm = Some all_deps \<and>
        (\<forall>k. resolve_dependencies (n + k) components dm = Some all_deps) \<and>
        fst ` set all_deps = set components \<and>
        (\<forall>c \<in> set components. \<exists>res V.
            get_all_deps n dm c {} = Some (res, V) \<and> map_of all_deps c = Some res \<and>
            set (deps_of dm c) \<subseteq> set res \<and> set res \<subseteq> listed dm))"
proof
  assume n: "length dm < n"
  obtain all_deps where a: "resolve_loop n dm components [] = Some all_deps"
    and d: "fst ` set all_deps = set components"
    and g: "\<forall>c \<in> set components. \<exists>r. get_all_deps n dm c {} = Some r \<and>
              map_of all_deps c = Some (fst r)"
    using resolve_loop_total[OF n, of components "[]"] by auto
  have f: "\<forall>k. resolve_dependencies (n + k) components dm = Some all_deps"
    using resolve_loop_fuel[OF a] by (simp add: resolve_dependencies_def)
  have c: "\<forall>c \<in> set components. \<exists>res V.
            get_all_deps n dm c {} = Some (res, V) \<and> map_of all_deps c = Some res \<and>
            set (deps_of dm c) \<subseteq> set res \<and> set res \<subseteq> listed dm"
  proof
    fix c assume "c \<in> set components"
    then obtain r where r: "get_all_deps n dm c {} = Some r" "map_of all_deps c = Some (fst r)"
      using g by blast
    have "set (fst r) \<subseteq> listed dm \<and> set (deps_of dm c) \<subseteq> set (fst r)"
      using get_all_deps_names(1)[of n dm c "{}", rule_format, OF r(1)] by simp
    then show "\<exists>res V. get_all_deps n dm c {} = Some (res, V) \<and> map_of all_deps c = Some res \<and>
            set (deps_of dm c) \<subseteq> set res \<and> set res \<subseteq> listed dm"
      using r by (metis prod.collapse)
  qed
  show "\<exists>all_deps. resolve_dependencies n components dm = Some all_deps \<and>
        (\<forall>k. resolve_dependencies (n + k) components dm = Some all_deps) \<and>
        fst ` set all_deps = set components \<and>
        (\<forall>c \<in> set components. \<exists>res V.
            get_all_deps n dm c {} = Some (res, V) \<and> map_of all_deps c = Some res \<and>
            set (deps_of dm c) \<subseteq> set res \<and> set res \<subseteq> listed dm)"
    using a d f c by (auto simp: resolve_dependencies_def)
qed

lemma example_diamond_deps:
  "resolve_dependencies 4 [''A''] example_diamond = Some [(''A'', [''B'', ''D'', ''C'', ''D''])]"
  by (simp add: resolve_dependencies_def example_diamond_def deps_of_def eval_nat_numeral)

text \<open>
  The claim as stated fails: \<open>D\<close> is reached from \<open>A\<close> through \<open>B\<close> and through \<open>C\<close>, and
  is listed twice.
\<close>

theorem resolve_dependencies_duplicates_counterexample:
  "\<exists>res. resolve_dependencies 4 [''A''] example_diamond = Some [(''A'', res)] \<and>
     \<not> distinct res"
  by (simp add: example_diamond_deps)

text \<open>
  The theorem at a map with a cycle between \<open>A\<close> and \<open>B\<close> and a self-reference of \<open>C\<close>.
\<close>

theorem resolve_dependencies_terminates_witness:
  "length example_cycle < 4 \<and>
   resolve_dependencies 4 [''A'', ''C''] example_cycle =
     Some [(''A'', [''B'', ''A'']), (''C'', [''C''])] \<and>
   resolve_dependencies (4 + 10) [''A'', ''C''] example_cycle =
     Some [(''A'', [''B'', ''A'']), (''C'', [''C''])]"
proof -
  have l: "length example_cycle < 4" by (simp add: example_cycle_def)
  have v: "resolve_dependencies 4 [''A'', ''C''] example_cycle =
     Some [(''A'', [''B'', ''A'']), (''C'', [''C''])]"
    by (simp add: resolve_dependencies_def example_cycle_def deps_of_def eval_nat_numeral)
  obtain all_deps where a: "resolve_dependencies 4 [''A'', ''C''] example_cycle = Some all_deps"
    and k: "\<forall>k. resolve_dependencies (4 + k) [''A'', ''C''] example_cycle = Some all_deps"
    using resolve_dependencies_terminates[of example_cycle 4 "[''A'', ''C'']"] l by blast
  have "all_deps = [(''A'', [''B'', ''A'']), (''C'', [''C''])]" using a v by simp
  then have "resolve_dependencies (4 + 10) [''A'', ''C''] example_cycle =
     Some [(''A'', [''B'', ''A'']), (''C'', [''C''])]" using k by blast
  then show ?thesis using l v by blast
qed

section \<open>Backward scheduling\<close>
































section \<open>Forward scheduling\<close>




lemma deps_limited_subset: "set (deps_limited components dm c) \<subseteq> set components"
  by (auto simp: deps_limited_def)


lemma map_of_finishes_dom: "(map_of fs x \<noteq> None) = (x \<in> fst ` set fs)"
  by (simp add: map_of_eq_None_iff)







lemma fwd_inv_progress [simp]:
  "fwd_inv components sbc ld today (st\<lparr>progress := b\<rparr>) = fwd_inv components sbc ld today st"
  by (simp add: fwd_inv_def)

lemma fwd_deps_ok_progress [simp]:
  "fwd_deps_ok components dm (st\<lparr>progress := b\<rparr>) = fwd_deps_ok components dm st"
  by (simp add: fwd_deps_ok_def)

lemma ready_progress [simp]:
  "ready components dm (st\<lparr>progress := b\<rparr>) c = ready components dm st c"
  by (simp add: ready_def)




















section \<open>Termination of the schedulers\<close>




end
